theory Spec2Isabelle
  imports Main "HOL-Library.Word"
begin

unbundle bit_operations_syntax

section \<open>The shared-memory substrate of api-layer/overlays.h\<close>

text \<open>
  The header is written for Windows (\<^verbatim>\<open>HANDLE\<close>, \<^verbatim>\<open>DWORD\<close>,
  \<^verbatim>\<open>WaitForMultipleObjects\<close>); its 64-bit target is the one modelled. There
  \<^verbatim>\<open>size_t\<close>, \<^verbatim>\<open>ptrdiff_t\<close> and every pointer are 64 bits wide, and arithmetic on
  \<^verbatim>\<open>unsigned char *\<close> is arithmetic modulo \<open>2 ^ 64\<close> on addresses. Addresses and sizes
  are therefore \<open>64 word\<close>, whose \<open>+\<close>, \<open>-\<close>, \<open>*\<close> wrap and whose \<open>div\<close> and
  \<open><\<close> are the unsigned ones. The null pointer is the address \<open>0\<close>. Memory is a flat
  store of bytes.
\<close>

type_synonym addr = "64 word"
type_synonym size_t = "64 word"
type_synonym byte = "8 word"
type_synonym mem = "addr \<Rightarrow> byte"

text \<open>
  What a call does besides returning: \<^verbatim>\<open>abort()\<close> ends the process, and two accesses
  have no defined meaning in C++ (an index outside \<^verbatim>\<open>pointerOffsets\<close>, a
  \<^verbatim>\<open>memcpy\<close> between overlapping ranges).
\<close>

datatype 'a outcome = Returns 'a | Aborts | Undefined

subsection \<open>Pointer-sized slots\<close>

text \<open>
  A pointer is stored in eight consecutive bytes, least significant byte first
  (x86-64). \<open>ptr_bytes n v\<close> are the \<open>n\<close> low bytes of \<open>v\<close>, \<open>bytes_ptr\<close> reads them
  back.
\<close>

fun ptr_bytes :: "nat \<Rightarrow> addr \<Rightarrow> byte list" where
  "ptr_bytes 0 v = []"
| "ptr_bytes (Suc n) v = ucast v # ptr_bytes n (drop_bit 8 v)"

fun bytes_ptr :: "byte list \<Rightarrow> addr" where
  "bytes_ptr [] = 0"
| "bytes_ptr (b # bs) = ucast b OR push_bit 8 (bytes_ptr bs)"

definition load_bytes :: "mem \<Rightarrow> addr \<Rightarrow> nat \<Rightarrow> byte list" where
  "load_bytes m a n = map (\<lambda>k. m (a + of_nat k)) [0..<n]"

definition store_bytes :: "mem \<Rightarrow> addr \<Rightarrow> byte list \<Rightarrow> mem" where
  "store_bytes m a bs = (\<lambda>x. if unat (x - a) < length bs then bs ! unat (x - a) else m x)"

text \<open>\<^verbatim>\<open>*pointerToPointer\<close> as an rvalue and as the target of an assignment.\<close>

definition read_ptr :: "mem \<Rightarrow> addr \<Rightarrow> addr" where
  "read_ptr m a = bytes_ptr (load_bytes m a 8)"

definition write_ptr :: "mem \<Rightarrow> addr \<Rightarrow> addr \<Rightarrow> mem" where
  "write_ptr m a v = store_bytes m a (ptr_bytes 8 v)"

text \<open>The byte at \<open>x\<close> belongs to the slot at \<open>a\<close>; the slots at \<open>a\<close> and \<open>b\<close> share no byte.\<close>

definition in_slot :: "addr \<Rightarrow> addr \<Rightarrow> bool" where
  "in_slot a x \<longleftrightarrow> x - a < 8"

definition slots_disjoint :: "addr \<Rightarrow> addr \<Rightarrow> bool" where
  "slots_disjoint a b \<longleftrightarrow> 8 \<le> b - a \<and> 8 \<le> a - b"

subsection \<open>IPCHeader\<close>

text \<open>
  \<^verbatim>\<open>pointerFixupCount\<close> is a C \<^verbatim>\<open>int\<close>; it is only ever incremented below 128, so it is
  an \<open>int\<close> here. \<^verbatim>\<open>pointerOffsets\<close> is the array of \<^verbatim>\<open>maxPointerFixupCount\<close>
  elements, a list; indexing it outside its bounds is \<open>Undefined\<close>. \<^verbatim>\<open>XrResult\<close> is a
  32-bit enumeration of the OpenXR headers. The header object is kept apart from the byte
  store: the methods below write memory only through \<^verbatim>\<open>unsigned char **\<close>, which cannot
  alias the \<^verbatim>\<open>int\<close> and \<^verbatim>\<open>size_t\<close> members.
\<close>

definition maxPointerFixupCount :: int where
  "maxPointerFixupCount = 128"

record IPCHeader =
  requestType :: "64 word"
  result :: "32 word"
  pointerFixupCount :: int
  pointerOffsets :: "size_t list"

text \<open>
  The constructor sets \<^verbatim>\<open>requestType\<close> and \<^verbatim>\<open>pointerFixupCount\<close>; the other two members
  start with whatever the storage held, given here as \<open>result0\<close> and \<open>offsets0\<close>.
\<close>

definition new_IPCHeader :: "64 word \<Rightarrow> 32 word \<Rightarrow> size_t list \<Rightarrow> IPCHeader" where
  "new_IPCHeader rt result0 offsets0 =
     \<lparr>requestType = rt, result = result0, pointerFixupCount = 0, pointerOffsets = offsets0\<rparr>"

definition in_array :: "'a list \<Rightarrow> int \<Rightarrow> bool" where
  "in_array xs i \<longleftrightarrow> 0 \<le> i \<and> i < int (length xs)"

definition addOffsetToPointer :: "IPCHeader \<Rightarrow> addr \<Rightarrow> addr \<Rightarrow> (bool \<times> IPCHeader) outcome" where
  "addOffsetToPointer h vbase vp =
     (if pointerFixupCount h \<ge> maxPointerFixupCount then Returns (False, h)
      else if in_array (pointerOffsets h) (pointerFixupCount h) then
        Returns (True,
          h\<lparr>pointerOffsets := (pointerOffsets h)[nat (pointerFixupCount h) := vp - vbase],
            pointerFixupCount := pointerFixupCount h + 1\<rparr>)
      else Undefined)"

text \<open>The body of the loop of \<^verbatim>\<open>makePointersRelative\<close>, at the slot \<open>pointerToByte\<close>.\<close>

definition relative_fixup :: "addr \<Rightarrow> mem \<Rightarrow> addr \<Rightarrow> mem" where
  "relative_fixup base m pointerToByte =
     (let pointer = read_ptr m pointerToByte
      in if pointer \<noteq> 0 then write_ptr m pointerToByte (pointer - (base - 0)) else m)"

function relative_loop :: "IPCHeader \<Rightarrow> addr \<Rightarrow> int \<Rightarrow> mem \<Rightarrow> mem outcome" where
  "relative_loop h base i m =
     (if i < pointerFixupCount h then
        (if in_array (pointerOffsets h) i
         then relative_loop h base (i + 1)
                (relative_fixup base m (base + pointerOffsets h ! nat i))
         else Undefined)
      else Returns m)"
  by pat_completeness auto
termination
  by (relation "measure (\<lambda>(h, base, i, m). nat (pointerFixupCount h - i))") auto

declare relative_loop.simps [simp del]

definition makePointersRelative :: "IPCHeader \<Rightarrow> addr \<Rightarrow> mem \<Rightarrow> (IPCHeader \<times> mem) outcome" where
  "makePointersRelative h vbase m = map_outcome (Pair h) (relative_loop h vbase 0 m)"

text \<open>The same for \<^verbatim>\<open>makePointersAbsolute\<close>.\<close>

definition absolute_fixup :: "addr \<Rightarrow> mem \<Rightarrow> addr \<Rightarrow> mem" where
  "absolute_fixup base m pointerToByte =
     (let pointer = read_ptr m pointerToByte
      in if pointer \<noteq> 0 then write_ptr m pointerToByte (pointer + (base - 0)) else m)"

function absolute_loop :: "IPCHeader \<Rightarrow> addr \<Rightarrow> int \<Rightarrow> mem \<Rightarrow> mem outcome" where
  "absolute_loop h base i m =
     (if i < pointerFixupCount h then
        (if in_array (pointerOffsets h) i
         then absolute_loop h base (i + 1)
                (absolute_fixup base m (base + pointerOffsets h ! nat i))
         else Undefined)
      else Returns m)"
  by pat_completeness auto
termination
  by (relation "measure (\<lambda>(h, base, i, m). nat (pointerFixupCount h - i))") auto

declare absolute_loop.simps [simp del]

definition makePointersAbsolute :: "IPCHeader \<Rightarrow> addr \<Rightarrow> mem \<Rightarrow> (IPCHeader \<times> mem) outcome" where
  "makePointersAbsolute h vbase m = map_outcome (Pair h) (absolute_loop h vbase 0 m)"

text \<open>
  The headers the constructor and \<^verbatim>\<open>addOffsetToPointer\<close> produce: the count is within
  the array. \<open>ledger\<close> is the recorded part of the array, \<open>slots\<close> the addresses it
  stands for under a base.
\<close>

definition wf_header :: "IPCHeader \<Rightarrow> bool" where
  "wf_header h \<longleftrightarrow>
     0 \<le> pointerFixupCount h \<and> pointerFixupCount h \<le> maxPointerFixupCount \<and>
     int (length (pointerOffsets h)) = maxPointerFixupCount"

definition ledger :: "IPCHeader \<Rightarrow> size_t list" where
  "ledger h = take (nat (pointerFixupCount h)) (pointerOffsets h)"

definition slots :: "IPCHeader \<Rightarrow> addr \<Rightarrow> addr list" where
  "slots h base = map (\<lambda>off. base + off) (ledger h)"

text \<open>
  The loop bodies differ only in the translation applied to a non-null pointer;
  \<open>translate f a\<close> is that body at the slot \<open>a\<close>. \<open>separate\<close> lists of slots are
  pairwise without a common byte.
\<close>

definition translate :: "(addr \<Rightarrow> addr) \<Rightarrow> addr \<Rightarrow> mem \<Rightarrow> mem" where
  "translate f a m = (if read_ptr m a \<noteq> 0 then write_ptr m a (f (read_ptr m a)) else m)"

fun separate :: "addr list \<Rightarrow> bool" where
  "separate [] \<longleftrightarrow> True"
| "separate (a # as) \<longleftrightarrow> (\<forall>b\<in>set as. slots_disjoint a b) \<and> separate as"

subsection \<open>IPCBuffer\<close>

text \<open>
  \<^verbatim>\<open>memberAlignment\<close> is an \<^verbatim>\<open>int\<close> constant; in \<^verbatim>\<open>pad\<close> it is converted to
  \<^verbatim>\<open>size_t\<close>, so the sum, the quotient and the product are unsigned 64-bit ones.
\<close>

definition memberAlignment :: size_t where
  "memberAlignment = 8"

definition pad :: "size_t \<Rightarrow> size_t" where
  "pad s = (s + memberAlignment - 1) div memberAlignment * memberAlignment"

text \<open>The member \<^verbatim>\<open>size\<close> is \<open>size_buf\<close> here, \<open>size\<close> being taken in HOL.\<close>

record IPCBuffer =
  base :: addr
  size_buf :: size_t
  current :: addr

definition reset :: "IPCBuffer \<Rightarrow> IPCBuffer" where
  "reset b = b\<lparr>current := base b\<rparr>"

text \<open>The constructor: \<^verbatim>\<open>current\<close> is first assigned by \<^verbatim>\<open>reset()\<close>.\<close>

definition new_IPCBuffer :: "addr \<Rightarrow> size_t \<Rightarrow> IPCBuffer" where
  "new_IPCBuffer base' size' = reset \<lparr>base = base', size_buf = size', current = 0\<rparr>"

definition advance :: "IPCBuffer \<Rightarrow> size_t \<Rightarrow> IPCBuffer" where
  "advance b s = b\<lparr>current := current b + pad s\<rparr>"

text \<open>
  \<^verbatim>\<open>memcpy\<close> of the C library: \<open>n\<close> bytes from \<open>src\<close> to \<open>dst\<close>. It has no defined
  result when the two ranges share a byte.
\<close>

definition ranges_overlap :: "addr \<Rightarrow> addr \<Rightarrow> size_t \<Rightarrow> bool" where
  "ranges_overlap dst src n \<longleftrightarrow> src - dst < n \<or> dst - src < n"

definition memcpy :: "mem \<Rightarrow> addr \<Rightarrow> addr \<Rightarrow> size_t \<Rightarrow> mem outcome" where
  "memcpy m dst src n =
     (if ranges_overlap dst src n then Undefined
      else Returns (\<lambda>x. if x - dst < n then m (src + (x - dst)) else m x))"

text \<open>
  In \<^verbatim>\<open>(current - base + s) > size\<close> the pointer difference is converted to
  \<^verbatim>\<open>size_t\<close>: the sum wraps and the comparison is unsigned.
\<close>

text \<open>\<^verbatim>\<open>write\<close> is \<open>write_buf\<close>, the name being a keyword of Isabelle.\<close>

definition write_buf :: "IPCBuffer \<Rightarrow> mem \<Rightarrow> addr \<Rightarrow> size_t \<Rightarrow> (bool \<times> IPCBuffer \<times> mem) outcome" where
  "write_buf b m p s =
     (if (current b - base b + s) > size_buf b then Returns (False, b, m)
      else map_outcome (\<lambda>m'. (True, advance b s, m')) (memcpy m (current b) p s))"

definition read :: "IPCBuffer \<Rightarrow> mem \<Rightarrow> addr \<Rightarrow> size_t \<Rightarrow> (IPCBuffer \<times> mem) outcome" where
  "read b m p s =
     (if (current b - base b + s) > size_buf b then Aborts
      else map_outcome (\<lambda>m'. (advance b s, m')) (memcpy m p (current b) s))"

text \<open>
  The templates \<^verbatim>\<open>write<T>\<close> and \<^verbatim>\<open>read<T>\<close> name a size \<^verbatim>\<open>s\<close> that is declared
  nowhere; they have no instance and are left out.
\<close>

text \<open>\<^verbatim>\<open>getAndAdvance<T>\<close>, with \<^verbatim>\<open>sizeof(T)\<close> as an argument. The pointer returned comes first.\<close>

definition getAndAdvance :: "IPCBuffer \<Rightarrow> size_t \<Rightarrow> addr \<times> IPCBuffer" where
  "getAndAdvance b sizeof_T =
     (if current b - base b + sizeof_T > size_buf b then (0, b)
      else (current b, advance b sizeof_T))"

definition allocate :: "IPCBuffer \<Rightarrow> size_t \<Rightarrow> addr \<times> IPCBuffer" where
  "allocate b s =
     (if (current b - base b + s) > size_buf b then (0, b)
      else (current b, advance b s))"

text \<open>The calls a client can make on a buffer, and a sequence of them run in order.\<close>

datatype buffer_op =
  Reset | Advance size_t | Write addr size_t | Read addr size_t
  | GetAndAdvance size_t | Allocate size_t

fun exec_op :: "buffer_op \<Rightarrow> IPCBuffer \<times> mem \<Rightarrow> (IPCBuffer \<times> mem) outcome" where
  "exec_op Reset (b, m) = Returns (reset b, m)"
| "exec_op (Advance s) (b, m) = Returns (advance b s, m)"
| "exec_op (Write p s) (b, m) = map_outcome snd (write_buf b m p s)"
| "exec_op (Read p s) (b, m) = read b m p s"
| "exec_op (GetAndAdvance sizeof_T) (b, m) = Returns (snd (getAndAdvance b sizeof_T), m)"
| "exec_op (Allocate s) (b, m) = Returns (snd (allocate b s), m)"

fun run :: "buffer_op list \<Rightarrow> IPCBuffer \<times> mem \<Rightarrow> (IPCBuffer \<times> mem) outcome" where
  "run [] st = Returns st"
| "run (c # cs) st =
     (case exec_op c st of Returns st' \<Rightarrow> run cs st' | Aborts \<Rightarrow> Aborts | Undefined \<Rightarrow> Undefined)"

fun is_Advance :: "buffer_op \<Rightarrow> bool" where
  "is_Advance (Advance s) \<longleftrightarrow> True"
| "is_Advance c \<longleftrightarrow> False"

text \<open>The cursor as a number of bytes from the start, and the capacity.\<close>

definition offset :: "IPCBuffer \<Rightarrow> nat" where
  "offset b = unat (current b - base b)"

definition capacity :: "IPCBuffer \<Rightarrow> nat" where
  "capacity b = unat (size_buf b)"

subsection \<open>RPCChannels\<close>

definition shmemSize :: size_t where
  "shmemSize = 1024 * 1024"

definition GetIPCBuffer :: "addr \<Rightarrow> IPCBuffer" where
  "GetIPCBuffer shmem = new_IPCBuffer shmem shmemSize"

datatype WaitResult =
  OVERLAY_REQUEST_READY | MAIN_RESPONSE_READY | OVERLAY_PROCESS_TERMINATED
  | MAIN_PROCESS_TERMINATED | WAIT_ERROR

text \<open>
  The values \<^verbatim>\<open>WaitForMultipleObjects\<close> returns are those of the Windows headers. What
  the successive calls of one wait return is decided outside the program; it is given as
  the list of these values, in order. The loop ends at the first value that is not
  \<^verbatim>\<open>WAIT_TIMEOUT\<close>; \<open>None\<close> is a wait still polling when the list ends. The local
  \<^verbatim>\<open>result\<close> is \<open>r\<close>. The time-out \<^verbatim>\<open>OVERLAY_REQUEST_WAIT_MILLIS\<close> of each call is a
  macro the header does not define; time is not part of the model.
\<close>

type_synonym DWORD = "32 word"

definition WAIT_OBJECT_0 :: DWORD where
  "WAIT_OBJECT_0 = 0"

definition WAIT_TIMEOUT :: DWORD where
  "WAIT_TIMEOUT = 258"

definition WAIT_FAILED :: DWORD where
  "WAIT_FAILED = 0xFFFFFFFF"

fun WaitForMainResponseOrFail :: "DWORD list \<Rightarrow> bool option" where
  "WaitForMainResponseOrFail [] = None"
| "WaitForMainResponseOrFail (r # later) =
     (if r = WAIT_TIMEOUT then WaitForMainResponseOrFail later
      else if r = WAIT_OBJECT_0 + 0 then Some True
      else if r = WAIT_OBJECT_0 + 1 then Some False
      else Some False)"

subsection \<open>Concrete states\<close>

text \<open>
  A ledger with the one slot at offset 16, holding the address of the base itself, and a
  ledger with slots at offsets 16 and 24, the first null and the second pointing 64 bytes
  into the buffer.
\<close>

definition base_header :: IPCHeader where
  "base_header = \<lparr>requestType = 0, result = 0, pointerFixupCount = 1,
                   pointerOffsets = 16 # replicate 127 0\<rparr>"

definition base_mem :: mem where
  "base_mem = write_ptr (\<lambda>x. 0) 4112 4096"

definition two_header :: IPCHeader where
  "two_header = \<lparr>requestType = 0, result = 0, pointerFixupCount = 2,
                  pointerOffsets = 16 # 24 # replicate 126 0\<rparr>"

definition two_mem :: mem where
  "two_mem = write_ptr (\<lambda>x. 0) 4120 4160"

text \<open>A ledger that records the slot at offset 16 twice; the slot holds twice the base.\<close>

definition twice_header :: IPCHeader where
  "twice_header = \<lparr>requestType = 0, result = 0, pointerFixupCount = 2,
                    pointerOffsets = 16 # 16 # replicate 126 0\<rparr>"

definition twice_mem :: mem where
  "twice_mem = write_ptr (\<lambda>x. 0) 4112 8192"

text \<open>
  A ledger with slots at offsets 16 and 20, which share four bytes. Memory is zero but for
  the byte at 4120: the first slot holds null, the second \<open>2 ^ 32\<close>.
\<close>

definition overlap_header :: IPCHeader where
  "overlap_header = \<lparr>requestType = 0, result = 0, pointerFixupCount = 2,
                      pointerOffsets = 16 # 20 # replicate 126 0\<rparr>"

definition overlap_mem :: mem where
  "overlap_mem = (\<lambda>x. 0)(4120 := 1)"

section \<open>The fixup ledger\<close>

lemma wf_new_IPCHeader:
  "int (length offsets0) = maxPointerFixupCount \<Longrightarrow> wf_header (new_IPCHeader rt result0 offsets0)"
  by (simp add: wf_header_def new_IPCHeader_def maxPointerFixupCount_def)

lemma ledger_new_IPCHeader: "ledger (new_IPCHeader rt result0 offsets0) = []"
  by (simp add: ledger_def new_IPCHeader_def)

lemma addOffsetToPointer_wf:
  assumes "wf_header h" "addOffsetToPointer h vbase vp = Returns (ok, h')"
  shows "wf_header h'"
  using assms
  by (auto simp add: addOffsetToPointer_def wf_header_def maxPointerFixupCount_def
      split: if_splits)

lemma addOffsetToPointer_room:
  assumes "wf_header h" "pointerFixupCount h < maxPointerFixupCount"
  shows "addOffsetToPointer h vbase vp =
           Returns (True,
             h\<lparr>pointerOffsets := (pointerOffsets h)[nat (pointerFixupCount h) := vp - vbase],
               pointerFixupCount := pointerFixupCount h + 1\<rparr>)"
  using assms
  by (simp add: addOffsetToPointer_def wf_header_def in_array_def)

lemma ledger_snoc:
  assumes "0 \<le> pointerFixupCount h" "nat (pointerFixupCount h) < length (pointerOffsets h)"
  shows "ledger (h\<lparr>pointerOffsets := (pointerOffsets h)[nat (pointerFixupCount h) := v],
                   pointerFixupCount := pointerFixupCount h + 1\<rparr>) = ledger h @ [v]"
proof -
  have "nat (pointerFixupCount h + 1) = Suc (nat (pointerFixupCount h))"
    using assms(1) by simp
  then show ?thesis
    using assms(2) by (simp add: ledger_def take_Suc_conv_app_nth)
qed

text \<open>
  C4. While fewer than 128 fixups are recorded, \<open>addOffsetToPointer\<close> returns true,
  appends \<open>vp - vbase\<close> to the ledger and raises the count by one, leaving request type and
  result alone; once 128 are recorded it returns false and the header, so the count and
  every recorded offset, is the one it was given.
\<close>

theorem addOffsetToPointer_ledger:
  assumes "wf_header h"
  shows "if pointerFixupCount h < maxPointerFixupCount
         then (\<exists>h'. addOffsetToPointer h vbase vp = Returns (True, h') \<and>
                 ledger h' = ledger h @ [vp - vbase] \<and>
                 pointerFixupCount h' = pointerFixupCount h + 1 \<and>
                 requestType h' = requestType h \<and> result h' = result h \<and> wf_header h')
         else addOffsetToPointer h vbase vp = Returns (False, h)"
proof (cases "pointerFixupCount h < maxPointerFixupCount")
  case True
  let ?h' = "h\<lparr>pointerOffsets := (pointerOffsets h)[nat (pointerFixupCount h) := vp - vbase],
               pointerFixupCount := pointerFixupCount h + 1\<rparr>"
  have ret: "addOffsetToPointer h vbase vp = Returns (True, ?h')"
    using assms True by (rule addOffsetToPointer_room)
  have "0 \<le> pointerFixupCount h" "nat (pointerFixupCount h) < length (pointerOffsets h)"
    using assms True by (auto simp add: wf_header_def)
  then have "ledger ?h' = ledger h @ [vp - vbase]"
    by (rule ledger_snoc)
  moreover have "wf_header ?h'"
    using assms ret by (rule addOffsetToPointer_wf)
  ultimately show ?thesis
    using True ret by simp
next
  case False
  then show ?thesis
    by (simp add: addOffsetToPointer_def)
qed

theorem addOffsetToPointer_ledger_witness:
  "wf_header (new_IPCHeader 7 0 (replicate 128 0)) \<and>
   addOffsetToPointer (new_IPCHeader 7 0 (replicate 128 0)) 4096 4112 =
     Returns (True, \<lparr>requestType = 7, result = 0, pointerFixupCount = 1,
                     pointerOffsets = (replicate 128 0)[0 := 16]\<rparr>) \<and>
   wf_header \<lparr>requestType = 7, result = 0, pointerFixupCount = 128,
              pointerOffsets = replicate 128 16\<rparr> \<and>
   addOffsetToPointer \<lparr>requestType = 7, result = 0, pointerFixupCount = 128,
                        pointerOffsets = replicate 128 16\<rparr> 4096 4112 =
     Returns (False, \<lparr>requestType = 7, result = 0, pointerFixupCount = 128,
                      pointerOffsets = replicate 128 16\<rparr>)"
proof -
  let ?full = "\<lparr>requestType = 7, result = 0, pointerFixupCount = 128,
                 pointerOffsets = replicate 128 16\<rparr>"
  have wf0: "wf_header (new_IPCHeader 7 0 (replicate 128 0))"
    by (simp add: wf_header_def new_IPCHeader_def maxPointerFixupCount_def)
  have wf1: "wf_header ?full"
    by (simp add: wf_header_def maxPointerFixupCount_def)
  from addOffsetToPointer_ledger [OF wf0, of 4096 4112]
  have "\<exists>h'. addOffsetToPointer (new_IPCHeader 7 0 (replicate 128 0)) 4096 4112 = Returns (True, h')"
    by (auto simp add: new_IPCHeader_def maxPointerFixupCount_def)
  then have a: "addOffsetToPointer (new_IPCHeader 7 0 (replicate 128 0)) 4096 4112 =
     Returns (True, \<lparr>requestType = 7, result = 0, pointerFixupCount = 1,
                     pointerOffsets = (replicate 128 0)[0 := 16]\<rparr>)"
    by (auto simp add: addOffsetToPointer_def new_IPCHeader_def split: if_splits)
  from addOffsetToPointer_ledger [OF wf1, of 4096 4112]
  have b: "addOffsetToPointer ?full 4096 4112 = Returns (False, ?full)"
    by (simp add: maxPointerFixupCount_def)
  from wf0 a wf1 b show ?thesis by simp
qed

section \<open>Memory\<close>

subsection \<open>Bytes of a pointer\<close>

lemma low_byte: "ucast (ucast (b :: byte) OR push_bit 8 x :: addr) = b"
  by (rule bit_word_eqI) (auto simp add: bit_simps)

lemma high_bytes: "drop_bit 8 (ucast (b :: byte) OR push_bit 8 x :: addr) = take_bit 56 x"
  by (rule bit_word_eqI) (auto simp add: bit_simps dest: bit_imp_le_length)

lemma recombine:
  "ucast (ucast v :: byte) OR push_bit 8 (take_bit n (drop_bit 8 v)) = take_bit (n + 8) (v :: addr)"
  by (rule bit_word_eqI) (auto simp add: bit_simps)

lemma length_ptr_bytes [simp]: "length (ptr_bytes n v) = n"
  by (induction n arbitrary: v) simp_all

lemma bytes_ptr_ptr_bytes: "bytes_ptr (ptr_bytes n v) = take_bit (8 * n) v"
proof (induction n arbitrary: v)
  case 0
  then show ?case by simp
next
  case (Suc n)
  have "bytes_ptr (ptr_bytes (Suc n) v) =
          ucast (ucast v :: byte) OR push_bit 8 (take_bit (8 * n) (drop_bit 8 v))"
    by (simp add: Suc.IH)
  also have "\<dots> = take_bit (8 * n + 8) v" by (rule recombine)
  finally show ?case by (simp add: add.commute)
qed

lemma bytes_ptr_bound:
  "length bs \<le> 8 \<Longrightarrow> take_bit (8 * length bs) (bytes_ptr bs) = bytes_ptr bs"
proof (induction bs)
  case Nil
  then show ?case by simp
next
  case (Cons b bs)
  then have IH: "take_bit (8 * length bs) (bytes_ptr bs) = bytes_ptr bs" by simp
  have "take_bit (8 * length bs + 8)
          (ucast b OR push_bit 8 (take_bit (8 * length bs) (bytes_ptr bs)) :: addr)
        = ucast b OR push_bit 8 (take_bit (8 * length bs) (bytes_ptr bs))"
    by (rule bit_word_eqI) (auto simp add: bit_simps dest: bit_imp_le_length)
  then show ?case by (simp add: IH add.commute)
qed

lemma ptr_bytes_bytes_ptr: "length bs \<le> 8 \<Longrightarrow> ptr_bytes (length bs) (bytes_ptr bs) = bs"
proof (induction bs)
  case Nil
  then show ?case by simp
next
  case (Cons b bs)
  then have len: "length bs \<le> 7" by simp
  then have "take_bit (8 * length bs) (bytes_ptr bs) = bytes_ptr bs"
    by (intro bytes_ptr_bound) simp
  moreover have "take_bit 56 (take_bit (8 * length bs) (bytes_ptr bs)) =
                 take_bit (8 * length bs) (bytes_ptr bs)"
    using len by (simp add: min_def)
  ultimately have "take_bit 56 (bytes_ptr bs) = bytes_ptr bs" by simp
  then have "drop_bit 8 (bytes_ptr (b # bs)) = bytes_ptr bs"
    by (simp only: bytes_ptr.simps high_bytes)
  moreover have "ucast (bytes_ptr (b # bs)) = b"
    by (simp only: bytes_ptr.simps low_byte)
  moreover have "ptr_bytes (length bs) (bytes_ptr bs) = bs" using Cons by simp
  ultimately show ?case by (simp only: length_Cons ptr_bytes.simps)
qed

subsection \<open>Loads and stores\<close>

lemma length_load_bytes [simp]: "length (load_bytes m a n) = n"
  by (simp add: load_bytes_def)

lemma unat_offset: "k < 2 ^ 64 \<Longrightarrow> unat ((a :: addr) + of_nat k - a) = k"
  by (simp add: unat_of_nat)

lemma load_store_same:
  assumes "length bs < 2 ^ 64"
  shows "load_bytes (store_bytes m a bs) a (length bs) = bs"
proof (rule nth_equalityI)
  show "length (load_bytes (store_bytes m a bs) a (length bs)) = length bs" by simp
next
  fix i assume "i < length (load_bytes (store_bytes m a bs) a (length bs))"
  then have i: "i < length bs" by simp
  with assms have "unat (a + of_nat i - a) = i" by (intro unat_offset) simp
  with i show "load_bytes (store_bytes m a bs) a (length bs) ! i = bs ! i"
    by (simp add: load_bytes_def store_bytes_def)
qed

lemma store_load_same: "store_bytes m a (load_bytes m a n) = m"
proof
  fix x
  have "a + of_nat (unat (x - a)) = x" by simp
  then show "store_bytes m a (load_bytes m a n) x = m x"
    by (simp add: store_bytes_def load_bytes_def)
qed

lemma store_bytes_frame: "\<not> unat (x - a) < length bs \<Longrightarrow> store_bytes m a bs x = m x"
  by (simp add: store_bytes_def)

lemma read_write_same: "read_ptr (write_ptr m a v) a = v"
proof -
  have "load_bytes (store_bytes m a (ptr_bytes 8 v)) a (length (ptr_bytes 8 v)) = ptr_bytes 8 v"
    by (rule load_store_same) simp
  then have "load_bytes (store_bytes m a (ptr_bytes 8 v)) a 8 = ptr_bytes 8 v" by simp
  moreover have "take_bit 64 v = v"
    using take_bit_length_eq [of v] by simp
  ultimately show ?thesis
    by (simp add: read_ptr_def write_ptr_def bytes_ptr_ptr_bytes)
qed

lemma write_read_same: "write_ptr m a (read_ptr m a) = m"
proof -
  have "ptr_bytes (length (load_bytes m a 8)) (bytes_ptr (load_bytes m a 8)) = load_bytes m a 8"
    by (rule ptr_bytes_bytes_ptr) simp
  then have "ptr_bytes 8 (bytes_ptr (load_bytes m a 8)) = load_bytes m a 8" by simp
  then show ?thesis
    by (simp only: read_ptr_def write_ptr_def store_load_same)
qed

lemma write_ptr_frame: "\<not> in_slot a x \<Longrightarrow> write_ptr m a v x = m x"
  by (simp add: write_ptr_def in_slot_def store_bytes_frame word_less_nat_alt)

lemma in_slot_iff: "in_slot a x \<longleftrightarrow> (\<exists>k<8. x = a + of_nat k)"
proof
  assume "in_slot a x"
  then have "unat (x - a) < 8" by (simp add: in_slot_def word_less_nat_alt)
  moreover have "x = a + of_nat (unat (x - a))" by simp
  ultimately show "\<exists>k<8. x = a + of_nat k" by blast
next
  assume "\<exists>k<8. x = a + of_nat k"
  then obtain k :: nat where k: "k < 8" "x = a + of_nat k" by blast
  then have "unat (x - a) = k" by (simp add: unat_of_nat)
  with k show "in_slot a x" by (simp add: in_slot_def word_less_nat_alt)
qed

lemma read_ptr_cong:
  assumes "\<And>x. in_slot a x \<Longrightarrow> m' x = m x"
  shows "read_ptr m' a = read_ptr m a"
proof -
  have "m' (a + of_nat k) = m (a + of_nat k)" if "k < 8" for k :: nat
    using that by (intro assms) (auto simp add: in_slot_iff)
  then have "load_bytes m' a 8 = load_bytes m a 8"
    by (simp add: load_bytes_def)
  then show ?thesis by (simp add: read_ptr_def)
qed

lemma read_ptr_eqD:
  assumes "read_ptr m' a = read_ptr m a" "in_slot a x"
  shows "m' x = m x"
proof -
  have "ptr_bytes (length (load_bytes m a 8)) (bytes_ptr (load_bytes m a 8)) = load_bytes m a 8"
       "ptr_bytes (length (load_bytes m' a 8)) (bytes_ptr (load_bytes m' a 8)) = load_bytes m' a 8"
    by (rule ptr_bytes_bytes_ptr, simp)+
  with assms(1) have eq: "load_bytes m' a 8 = load_bytes m a 8"
    by (simp add: read_ptr_def)
  from assms(2) obtain k :: nat where k: "k < 8" "x = a + of_nat k"
    by (auto simp add: in_slot_iff)
  from eq have "load_bytes m' a 8 ! k = load_bytes m a 8 ! k" by simp
  with k show ?thesis by (simp add: load_bytes_def)
qed

subsection \<open>Slots that share no byte\<close>

lemma unat_neg64: "d \<noteq> 0 \<Longrightarrow> unat (- d) = 2 ^ 64 - unat d" for d :: "64 word"
  using unat_sub_if_size [of 0 d] by (simp add: word_size unat_eq_zero)

lemma shift_ge8:
  fixes d k :: "64 word"
  assumes "8 \<le> d" "8 \<le> - d" "k < 8"
  shows "8 \<le> d + k"
proof -
  have d8: "8 \<le> unat d" using assms(1) by (simp add: word_le_nat_alt)
  then have "d \<noteq> 0" by auto
  then have "unat (- d) = 2 ^ 64 - unat d" by (rule unat_neg64)
  moreover have "8 \<le> unat (- d)" using assms(2) by (simp add: word_le_nat_alt)
  ultimately have "unat d + 8 \<le> 2 ^ 64" by simp
  moreover have k8: "unat k < 8" using assms(3) by (simp add: word_less_nat_alt)
  ultimately have "unat d + unat k < 2 ^ 64" by simp
  then have "unat (d + k) = unat d + unat k"
    by (simp add: unat_add_lem [THEN iffD1])
  with d8 show ?thesis by (simp add: word_le_nat_alt)
qed

lemma slots_disjoint_sym: "slots_disjoint a b \<Longrightarrow> slots_disjoint b a"
  by (simp add: slots_disjoint_def)

lemma slots_disjoint_not_in:
  assumes "slots_disjoint a b" "in_slot b x"
  shows "\<not> in_slot a x"
proof -
  have "8 \<le> (b - a) + (x - b)"
    using assms by (intro shift_ge8) (simp_all add: slots_disjoint_def in_slot_def)
  moreover have "(b - a) + (x - b) = x - a" by simp
  ultimately show ?thesis by (simp add: in_slot_def not_less)
qed

lemma read_ptr_write_other:
  assumes "slots_disjoint a b"
  shows "read_ptr (write_ptr m a v) b = read_ptr m b"
  using assms by (intro read_ptr_cong write_ptr_frame slots_disjoint_not_in)

subsection \<open>The two loops as folds over the recorded slots\<close>

lemma relative_fixup_translate: "relative_fixup vbase m a = translate (\<lambda>p. p - vbase) a m"
  by (simp add: relative_fixup_def translate_def Let_def)

lemma absolute_fixup_translate: "absolute_fixup vbase m a = translate (\<lambda>p. p + vbase) a m"
  by (simp add: absolute_fixup_def translate_def Let_def)

lemma drop_take_step:
  assumes "i < n" "n \<le> length xs"
  shows "drop i (take n xs) = xs ! i # drop (Suc i) (take n xs)"
proof -
  have "i < length (take n xs)" using assms by simp
  then have "drop i (take n xs) = take n xs ! i # drop (Suc i) (take n xs)"
    by (rule Cons_nth_drop_Suc [symmetric])
  with assms(1) show ?thesis by simp
qed

lemma relative_loop_fold:
  assumes "0 \<le> i" "pointerFixupCount h \<le> int (length (pointerOffsets h))"
  shows "relative_loop h vbase i m =
           Returns (fold (translate (\<lambda>p. p - vbase))
                      (map (\<lambda>off. vbase + off) (drop (nat i) (ledger h))) m)"
  using assms
proof (induction h vbase i m rule: relative_loop.induct)
  case (1 h vbase i m)
  show ?case
  proof (cases "i < pointerFixupCount h")
    case True
    with "1.prems" have arr: "in_array (pointerOffsets h) i"
      by (simp add: in_array_def)
    have nat: "nat (i + 1) = Suc (nat i)" using "1.prems" by simp
    have "nat i < nat (pointerFixupCount h)" "nat (pointerFixupCount h) \<le> length (pointerOffsets h)"
      using True "1.prems" by auto
    then have split: "drop (nat i) (ledger h) = pointerOffsets h ! nat i # drop (Suc (nat i)) (ledger h)"
      unfolding ledger_def by (rule drop_take_step)
    have "relative_loop h vbase i m =
            relative_loop h vbase (i + 1) (relative_fixup vbase m (vbase + pointerOffsets h ! nat i))"
      using True arr by (subst relative_loop.simps) simp
    also have "\<dots> = Returns (fold (translate (\<lambda>p. p - vbase))
                      (map (\<lambda>off. vbase + off) (drop (nat (i + 1)) (ledger h)))
                      (relative_fixup vbase m (vbase + pointerOffsets h ! nat i)))"
      using True arr "1.prems" by (intro "1.IH") simp_all
    finally show ?thesis
      by (simp add: split nat relative_fixup_translate)
  next
    case False
    then have "drop (nat i) (ledger h) = []"
      using "1.prems" by (simp add: ledger_def)
    with False show ?thesis
      by (subst relative_loop.simps) simp
  qed
qed

lemma absolute_loop_fold:
  assumes "0 \<le> i" "pointerFixupCount h \<le> int (length (pointerOffsets h))"
  shows "absolute_loop h vbase i m =
           Returns (fold (translate (\<lambda>p. p + vbase))
                      (map (\<lambda>off. vbase + off) (drop (nat i) (ledger h))) m)"
  using assms
proof (induction h vbase i m rule: absolute_loop.induct)
  case (1 h vbase i m)
  show ?case
  proof (cases "i < pointerFixupCount h")
    case True
    with "1.prems" have arr: "in_array (pointerOffsets h) i"
      by (simp add: in_array_def)
    have nat: "nat (i + 1) = Suc (nat i)" using "1.prems" by simp
    have "nat i < nat (pointerFixupCount h)" "nat (pointerFixupCount h) \<le> length (pointerOffsets h)"
      using True "1.prems" by auto
    then have split: "drop (nat i) (ledger h) = pointerOffsets h ! nat i # drop (Suc (nat i)) (ledger h)"
      unfolding ledger_def by (rule drop_take_step)
    have "absolute_loop h vbase i m =
            absolute_loop h vbase (i + 1) (absolute_fixup vbase m (vbase + pointerOffsets h ! nat i))"
      using True arr by (subst absolute_loop.simps) simp
    also have "\<dots> = Returns (fold (translate (\<lambda>p. p + vbase))
                      (map (\<lambda>off. vbase + off) (drop (nat (i + 1)) (ledger h)))
                      (absolute_fixup vbase m (vbase + pointerOffsets h ! nat i)))"
      using True arr "1.prems" by (intro "1.IH") simp_all
    finally show ?thesis
      by (simp add: split nat absolute_fixup_translate)
  next
    case False
    then have "drop (nat i) (ledger h) = []"
      using "1.prems" by (simp add: ledger_def)
    with False show ?thesis
      by (subst absolute_loop.simps) simp
  qed
qed

lemma makePointersRelative_fold:
  assumes "wf_header h"
  shows "makePointersRelative h vbase m =
           Returns (h, fold (translate (\<lambda>p. p - vbase)) (slots h vbase) m)"
proof -
  have "pointerFixupCount h \<le> int (length (pointerOffsets h))"
    using assms by (simp add: wf_header_def)
  then show ?thesis
    by (simp add: makePointersRelative_def slots_def relative_loop_fold)
qed

lemma makePointersAbsolute_fold:
  assumes "wf_header h"
  shows "makePointersAbsolute h vbase m =
           Returns (h, fold (translate (\<lambda>p. p + vbase)) (slots h vbase) m)"
proof -
  have "pointerFixupCount h \<le> int (length (pointerOffsets h))"
    using assms by (simp add: wf_header_def)
  then show ?thesis
    by (simp add: makePointersAbsolute_def slots_def absolute_loop_fold)
qed

subsection \<open>What a pass does to memory\<close>

lemma translate_frame: "\<not> in_slot a x \<Longrightarrow> translate f a m x = m x"
  by (simp add: translate_def write_ptr_frame)

lemma translate_same:
  "read_ptr (translate f a m) a = (if read_ptr m a = 0 then 0 else f (read_ptr m a))"
  by (simp add: translate_def read_write_same)

lemma translate_other:
  "slots_disjoint a b \<Longrightarrow> read_ptr (translate f a m) b = read_ptr m b"
  by (simp add: translate_def read_ptr_write_other)

lemma fold_translate_frame:
  assumes "\<forall>a\<in>set as. \<not> in_slot a x"
  shows "fold (translate f) as m x = m x"
  using assms by (induction as arbitrary: m) (simp_all add: translate_frame)

lemma fold_translate_other:
  assumes "\<forall>a\<in>set as. slots_disjoint a b"
  shows "read_ptr (fold (translate f) as m) b = read_ptr m b"
  using assms by (induction as arbitrary: m) (simp_all add: translate_other)

lemma fold_translate_null:
  assumes "read_ptr m b = 0" "\<forall>a\<in>set as. a = b \<or> slots_disjoint a b"
  shows "read_ptr (fold (translate f) as m) b = 0"
  using assms
proof (induction as arbitrary: m)
  case Nil
  then show ?case by simp
next
  case (Cons a as)
  have "read_ptr (translate f a m) b = 0"
  proof (cases "a = b")
    case True
    with Cons.prems(1) show ?thesis by (simp add: translate_same)
  next
    case False
    with Cons.prems have "slots_disjoint a b" by simp
    with Cons.prems(1) show ?thesis by (simp add: translate_other)
  qed
  with Cons show ?case by simp
qed

lemma fold_translate_separate:
  assumes "separate as" "b \<in> set as"
  shows "read_ptr (fold (translate f) as m) b = (if read_ptr m b = 0 then 0 else f (read_ptr m b))"
  using assms
proof (induction as arbitrary: m)
  case Nil
  then show ?case by simp
next
  case (Cons a as)
  show ?case
  proof (cases "b = a")
    case True
    from Cons.prems(1) have "\<forall>c\<in>set as. slots_disjoint c a"
      by (auto intro: slots_disjoint_sym)
    then have "read_ptr (fold (translate f) as (translate f a m)) a = read_ptr (translate f a m) a"
      by (rule fold_translate_other)
    with True show ?thesis by (simp add: translate_same)
  next
    case False
    with Cons.prems have b: "b \<in> set as" "slots_disjoint a b" "separate as" by auto
    then have "read_ptr (fold (translate f) as (translate f a m)) b =
                 (if read_ptr (translate f a m) b = 0 then 0 else f (read_ptr (translate f a m) b))"
      by (intro Cons.IH)
    with b(2) show ?thesis by (simp add: translate_other)
  qed
qed

section \<open>Relocation\<close>

lemma wf_base_header: "wf_header base_header"
  by (simp add: wf_header_def base_header_def maxPointerFixupCount_def)

lemma slots_base_header: "slots base_header 4096 = [4112]"
  by (simp add: slots_def ledger_def base_header_def)

lemma wf_two_header: "wf_header two_header"
  by (simp add: wf_header_def two_header_def maxPointerFixupCount_def)

lemma slots_two_header: "slots two_header 4096 = [4112, 4120]"
  by (simp add: slots_def ledger_def two_header_def)

lemma wf_overlap_header: "wf_header overlap_header"
  by (simp add: wf_header_def overlap_header_def maxPointerFixupCount_def)

lemma slots_overlap_header: "slots overlap_header 4096 = [4112, 4116]"
  by (simp add: slots_def ledger_def overlap_header_def)

lemma ptr_bytes_8:
  "ptr_bytes 8 v = [ucast v, ucast (drop_bit 8 v), ucast (drop_bit 16 v), ucast (drop_bit 24 v),
     ucast (drop_bit 32 v), ucast (drop_bit 40 v), ucast (drop_bit 48 v), ucast (drop_bit 56 v)]"
proof -
  have e: "(8::nat) = Suc (Suc (Suc (Suc (Suc (Suc (Suc (Suc 0)))))))" by simp
  show ?thesis by (subst e) (simp add: drop_bit_drop_bit)
qed

lemma load_bytes_8:
  "load_bytes m a 8 =
     [m a, m (a + 1), m (a + 2), m (a + 3), m (a + 4), m (a + 5), m (a + 6), m (a + 7)]"
proof -
  have "[0..<8] = [0, 1, 2, 3, 4, 5, 6, 7 :: nat]" by (simp add: upt_rec)
  then show ?thesis by (simp add: load_bytes_def)
qed

lemma read_overlap_mem:
  "read_ptr overlap_mem 4112 = 0" "read_ptr overlap_mem 4116 = 4294967296"
  by (simp_all add: read_ptr_def load_bytes_8 overlap_mem_def)

lemma read_overlap_after:
  "read_ptr (write_ptr overlap_mem 4116 0xFFFFF000) 4112 = 0xFFFFF00000000000"
  "read_ptr (write_ptr overlap_mem 4116 0x100001000) 4112 = 0x100000000000"
proof -
  have n: "\<not> unat (- 1 :: addr) < 8"
    by (simp add: unsigned_minus_1_eq_mask mask_eq_exp_minus_1)
  show "read_ptr (write_ptr overlap_mem 4116 0xFFFFF000) 4112 = 0xFFFFF00000000000"
    using n by (simp add: read_ptr_def load_bytes_8 write_ptr_def store_bytes_def ptr_bytes_8
        overlap_mem_def)
  show "read_ptr (write_ptr overlap_mem 4116 0x100001000) 4112 = 0x100000000000"
    using n by (simp add: read_ptr_def load_bytes_8 write_ptr_def store_bytes_def ptr_bytes_8
        overlap_mem_def)
qed

lemma bytes_ptr_zero: "bytes_ptr (map (\<lambda>k. 0) ks) = 0"
  by (induction ks) simp_all

lemma read_ptr_zero: "read_ptr (\<lambda>x. 0) a = 0"
  by (simp add: read_ptr_def load_bytes_def bytes_ptr_zero)

lemma read_two_mem: "read_ptr two_mem 4120 = 4160" "read_ptr two_mem 4112 = 0"
proof -
  show "read_ptr two_mem 4120 = 4160" by (simp add: two_mem_def read_write_same)
  have "read_ptr two_mem 4112 = read_ptr (\<lambda>x. 0) 4112"
    unfolding two_mem_def by (rule read_ptr_write_other) (simp add: slots_disjoint_def)
  then show "read_ptr two_mem 4112 = 0" by (simp add: read_ptr_zero)
qed

lemma roundtrip_value:
  "(if (if v = 0 then 0 else v - vbase) = 0 then 0 else (if v = 0 then 0 else v - vbase) + vbase) =
     (if v = vbase then 0 else v)" for v vbase :: addr
  by auto

text \<open>
  C9. On a header whose count lies within the array, both passes return with the header
  they were given (request type, result, count and offsets), and every byte of memory that
  belongs to none of the recorded slots keeps its value.
\<close>

theorem makePointers_frame:
  assumes "wf_header h"
  shows "\<exists>m1 m2. makePointersRelative h vbase m = Returns (h, m1) \<and>
           makePointersAbsolute h vbase m = Returns (h, m2) \<and>
           (\<forall>x. (\<forall>a\<in>set (slots h vbase). \<not> in_slot a x) \<longrightarrow> m1 x = m x \<and> m2 x = m x)"
  using assms
  by (simp add: makePointersRelative_fold makePointersAbsolute_fold fold_translate_frame)

theorem makePointers_frame_witness:
  "wf_header base_header \<and> slots base_header 4096 = [4112] \<and> \<not> in_slot 4112 4120 \<and>
   (\<exists>m1 m2. makePointersRelative base_header 4096 base_mem = Returns (base_header, m1) \<and>
      makePointersAbsolute base_header 4096 base_mem = Returns (base_header, m2) \<and>
      m1 4120 = base_mem 4120 \<and> m2 4120 = base_mem 4120)"
proof -
  have out: "\<forall>a\<in>set (slots base_header 4096). \<not> in_slot a 4120"
    by (simp add: slots_base_header in_slot_def)
  from makePointers_frame [OF wf_base_header, of 4096 base_mem]
  obtain m1 m2 where m: "makePointersRelative base_header 4096 base_mem = Returns (base_header, m1)"
    "makePointersAbsolute base_header 4096 base_mem = Returns (base_header, m2)"
    "\<forall>x. (\<forall>a\<in>set (slots base_header 4096). \<not> in_slot a x) \<longrightarrow> m1 x = base_mem x \<and> m2 x = base_mem x"
    by blast
  from m(3) out have same: "m1 4120 = base_mem 4120 \<and> m2 4120 = base_mem 4120" by blast
  have "\<not> in_slot 4112 4120" by (simp add: in_slot_def)
  with wf_base_header slots_base_header m(1,2) same show ?thesis by blast
qed

text \<open>
  C7, as the code has it. At a slot that holds null the body of either loop leaves memory
  as it is. A recorded slot that holds null, and that no other recorded slot overlaps in
  part, still holds null after \<open>makePointersRelative\<close> and after
  \<open>makePointersAbsolute\<close>. \<open>addOffsetToPointer\<close> records any offset it is given: that
  recorded slots are aligned, or apart, is checked nowhere.
\<close>

theorem null_slot_stays_null:
  assumes "wf_header h" "b \<in> set (slots h vbase)" "read_ptr m b = 0"
    and "\<forall>a\<in>set (slots h vbase). a = b \<or> slots_disjoint a b"
  shows "relative_fixup vbase m b = m \<and> absolute_fixup vbase m b = m \<and>
         (\<exists>m1 m2. makePointersRelative h vbase m = Returns (h, m1) \<and> read_ptr m1 b = 0 \<and>
            makePointersAbsolute h vbase m = Returns (h, m2) \<and> read_ptr m2 b = 0)"
  using assms
  by (simp add: makePointersRelative_fold makePointersAbsolute_fold fold_translate_null
      relative_fixup_def absolute_fixup_def)

theorem null_slot_stays_null_witness:
  "wf_header two_header \<and> 4112 \<in> set (slots two_header 4096) \<and> read_ptr two_mem 4112 = 0 \<and>
   slots two_header 4096 = [4112, 4120] \<and> slots_disjoint 4120 4112 \<and>
   (\<exists>m1 m2. makePointersRelative two_header 4096 two_mem = Returns (two_header, m1) \<and>
      read_ptr m1 4112 = 0 \<and>
      makePointersAbsolute two_header 4096 two_mem = Returns (two_header, m2) \<and>
      read_ptr m2 4112 = 0)"
proof -
  have a: "4112 \<in> set (slots two_header 4096)" by (simp add: slots_two_header)
  have b: "\<forall>a\<in>set (slots two_header 4096). a = 4112 \<or> slots_disjoint a 4112"
    by (simp add: slots_two_header slots_disjoint_def)
  have c: "slots_disjoint 4120 4112" by (simp add: slots_disjoint_def)
  from null_slot_stays_null [OF wf_two_header a read_two_mem(2) b]
    wf_two_header a read_two_mem(2) slots_two_header c
  show ?thesis by blast
qed

text \<open>
  Recorded slots at offsets 16 and 20 of a buffer at \<open>0x1000\<close>, the first null, the second
  holding \<open>2 ^ 32\<close>. Both loops pass the first slot by and translate the second, whose four
  low bytes are the four high bytes of the first: after \<open>makePointersRelative\<close> the first
  slot reads \<open>0xFFFFF00000000000\<close>, after \<open>makePointersAbsolute\<close> \<open>0x100000000000\<close>.
\<close>

theorem null_slot_stays_null_counterexample:
  "wf_header overlap_header \<and> slots overlap_header 4096 = [4112, 4116] \<and>
   read_ptr overlap_mem 4112 = 0 \<and> read_ptr overlap_mem 4116 = 4294967296 \<and>
   makePointersRelative overlap_header 4096 overlap_mem =
     Returns (overlap_header, write_ptr overlap_mem 4116 0xFFFFF000) \<and>
   read_ptr (write_ptr overlap_mem 4116 0xFFFFF000) 4112 = 0xFFFFF00000000000 \<and>
   makePointersAbsolute overlap_header 4096 overlap_mem =
     Returns (overlap_header, write_ptr overlap_mem 4116 0x100001000) \<and>
   read_ptr (write_ptr overlap_mem 4116 0x100001000) 4112 = 0x100000000000"
proof -
  have a: "makePointersRelative overlap_header 4096 overlap_mem =
     Returns (overlap_header, write_ptr overlap_mem 4116 0xFFFFF000)"
    by (simp add: makePointersRelative_fold wf_overlap_header slots_overlap_header translate_def
        read_overlap_mem)
  have b: "makePointersAbsolute overlap_header 4096 overlap_mem =
     Returns (overlap_header, write_ptr overlap_mem 4116 0x100001000)"
    by (simp add: makePointersAbsolute_fold wf_overlap_header slots_overlap_header translate_def
        read_overlap_mem)
  from a b wf_overlap_header slots_overlap_header read_overlap_mem read_overlap_after
  show ?thesis by simp
qed

text \<open>
  C1, as the code has it. For a ledger of pairwise non-overlapping slots,
  \<open>makePointersAbsolute\<close> after \<open>makePointersRelative\<close> with the same base restores every byte
  of every recorded slot that is null or holds a pointer other than the base itself. A slot
  that holds the base itself reads null afterwards.
\<close>

theorem relocation_roundtrip:
  assumes "wf_header h" "separate (slots h vbase)"
  shows "\<exists>m1 m2. makePointersRelative h vbase m = Returns (h, m1) \<and>
           makePointersAbsolute h vbase m1 = Returns (h, m2) \<and>
           (\<forall>a\<in>set (slots h vbase).
              read_ptr m2 a = (if read_ptr m a = vbase then 0 else read_ptr m a) \<and>
              (read_ptr m a \<noteq> vbase \<or> read_ptr m a = 0 \<longrightarrow>
                 (\<forall>x. in_slot a x \<longrightarrow> m2 x = m x)))"
proof -
  define m1 where "m1 = fold (translate (\<lambda>p. p - vbase)) (slots h vbase) m"
  define m2 where "m2 = fold (translate (\<lambda>p. p + vbase)) (slots h vbase) m1"
  have rel: "makePointersRelative h vbase m = Returns (h, m1)"
    unfolding m1_def using assms(1) by (rule makePointersRelative_fold)
  have abs: "makePointersAbsolute h vbase m1 = Returns (h, m2)"
    unfolding m2_def using assms(1) by (rule makePointersAbsolute_fold)
  have val: "read_ptr m2 a = (if read_ptr m a = vbase then 0 else read_ptr m a)"
    if a: "a \<in> set (slots h vbase)" for a
  proof -
    have "read_ptr m1 a = (if read_ptr m a = 0 then 0 else read_ptr m a - vbase)"
      unfolding m1_def using assms(2) a by (rule fold_translate_separate)
    moreover have "read_ptr m2 a = (if read_ptr m1 a = 0 then 0 else read_ptr m1 a + vbase)"
      unfolding m2_def using assms(2) a by (rule fold_translate_separate)
    ultimately show ?thesis by (simp only: roundtrip_value)
  qed
  have same: "\<forall>a\<in>set (slots h vbase).
              read_ptr m2 a = (if read_ptr m a = vbase then 0 else read_ptr m a) \<and>
              (read_ptr m a \<noteq> vbase \<or> read_ptr m a = 0 \<longrightarrow>
                 (\<forall>x. in_slot a x \<longrightarrow> m2 x = m x))"
  proof (intro ballI conjI impI allI)
    fix a
    assume a: "a \<in> set (slots h vbase)"
    then show "read_ptr m2 a = (if read_ptr m a = vbase then 0 else read_ptr m a)"
      by (rule val)
    fix x
    assume v: "read_ptr m a \<noteq> vbase \<or> read_ptr m a = 0" and x: "in_slot a x"
    from val [OF a] v have "read_ptr m2 a = read_ptr m a" by auto
    then show "m2 x = m x" using x by (rule read_ptr_eqD)
  qed
  from rel abs same show ?thesis by (intro exI conjI)
qed

theorem relocation_roundtrip_witness:
  "wf_header two_header \<and> separate (slots two_header 4096) \<and>
   (\<exists>m1 m2. makePointersRelative two_header 4096 two_mem = Returns (two_header, m1) \<and>
      makePointersAbsolute two_header 4096 m1 = Returns (two_header, m2) \<and>
      read_ptr two_mem 4120 = 4160 \<and> read_ptr m1 4120 = 64 \<and>
      (\<forall>x. in_slot 4120 x \<longrightarrow> m2 x = two_mem x))"
proof -
  have sep: "separate (slots two_header 4096)"
    by (simp add: slots_two_header slots_disjoint_def)
  from relocation_roundtrip [OF wf_two_header sep, of two_mem]
  obtain m1 m2 where m: "makePointersRelative two_header 4096 two_mem = Returns (two_header, m1)"
    "makePointersAbsolute two_header 4096 m1 = Returns (two_header, m2)"
    "\<forall>a\<in>set (slots two_header 4096).
        read_ptr m2 a = (if read_ptr two_mem a = 4096 then 0 else read_ptr two_mem a) \<and>
        (read_ptr two_mem a \<noteq> 4096 \<or> read_ptr two_mem a = 0 \<longrightarrow>
           (\<forall>x. in_slot a x \<longrightarrow> m2 x = two_mem x))"
    by blast
  from m(3) have same: "\<forall>x. in_slot 4120 x \<longrightarrow> m2 x = two_mem x"
    by (simp add: slots_two_header read_two_mem)
  have "m1 = fold (translate (\<lambda>p. p - 4096)) (slots two_header 4096) two_mem"
    using m(1) by (simp add: makePointersRelative_fold wf_two_header)
  then have "read_ptr m1 4120 = 64"
    using fold_translate_separate [OF sep, of 4120 "\<lambda>p. p - 4096" two_mem]
    by (simp add: slots_two_header read_two_mem)
  with wf_two_header sep m(1,2) same read_two_mem(1) show ?thesis by blast
qed

text \<open>
  A slot that holds the address of the base: \<open>makePointersRelative\<close> turns it into \<open>0\<close>,
  which \<open>makePointersAbsolute\<close> takes for null and leaves alone. And a slot recorded twice
  that holds twice the base: the base is subtracted twice, with the same end.
\<close>

theorem relocation_roundtrip_counterexample:
  "makePointersRelative base_header 4096 base_mem =
     Returns (base_header, write_ptr base_mem 4112 0) \<and>
   makePointersAbsolute base_header 4096 (write_ptr base_mem 4112 0) =
     Returns (base_header, write_ptr base_mem 4112 0) \<and>
   read_ptr base_mem 4112 = 4096 \<and> read_ptr (write_ptr base_mem 4112 0) 4112 = 0 \<and>
   makePointersRelative twice_header 4096 twice_mem =
     Returns (twice_header, write_ptr (write_ptr twice_mem 4112 4096) 4112 0) \<and>
   makePointersAbsolute twice_header 4096 (write_ptr (write_ptr twice_mem 4112 4096) 4112 0) =
     Returns (twice_header, write_ptr (write_ptr twice_mem 4112 4096) 4112 0) \<and>
   read_ptr twice_mem 4112 = 8192 \<and>
   read_ptr (write_ptr (write_ptr twice_mem 4112 4096) 4112 0) 4112 = 0"
proof -
  have r: "read_ptr base_mem 4112 = 4096" by (simp add: base_mem_def read_write_same)
  have a: "makePointersRelative base_header 4096 base_mem =
          Returns (base_header, write_ptr base_mem 4112 0)"
    by (simp add: makePointersRelative_fold wf_base_header slots_base_header translate_def r)
  have b: "makePointersAbsolute base_header 4096 (write_ptr base_mem 4112 0) =
     Returns (base_header, write_ptr base_mem 4112 0)"
    by (simp add: makePointersAbsolute_fold wf_base_header slots_base_header translate_def
        read_write_same)
  have wf: "wf_header twice_header"
    by (simp add: wf_header_def twice_header_def maxPointerFixupCount_def)
  have sl: "slots twice_header 4096 = [4112, 4112]"
    by (simp add: slots_def ledger_def twice_header_def)
  have t: "read_ptr twice_mem 4112 = 8192" by (simp add: twice_mem_def read_write_same)
  have c: "makePointersRelative twice_header 4096 twice_mem =
     Returns (twice_header, write_ptr (write_ptr twice_mem 4112 4096) 4112 0)"
    by (simp add: makePointersRelative_fold wf sl translate_def t read_write_same)
  have d: "makePointersAbsolute twice_header 4096
             (write_ptr (write_ptr twice_mem 4112 4096) 4112 0) =
     Returns (twice_header, write_ptr (write_ptr twice_mem 4112 4096) 4112 0)"
    by (simp add: makePointersAbsolute_fold wf sl translate_def read_write_same)
  from a b c d r t show ?thesis by (simp add: read_write_same)
qed

section \<open>The buffer\<close>

subsection \<open>Padding\<close>

lemma pad_eq: "pad s = (s + 7) div 8 * 8"
proof -
  have "s + 8 - 1 = s + 7" by simp
  then show ?thesis by (simp only: pad_def memberAlignment_def)
qed

lemma unat_pad: "unat (pad s) = unat (s + 7) div 8 * 8"
proof -
  have "unat ((s + 7) div 8) * unat (8 :: size_t) < 2 ^ LENGTH(64)"
  proof -
    have "unat ((s + 7) div 8) * 8 \<le> unat (s + 7)" by (simp add: unat_div)
    also have "\<dots> < 2 ^ LENGTH(64)" by (rule unsigned_less)
    finally show ?thesis by simp
  qed
  then have "unat ((s + 7) div 8 * 8) = unat ((s + 7) div 8) * unat (8 :: size_t)"
    by (simp only: unat_mult_lem [THEN iffD1])
  then show ?thesis by (simp add: pad_eq unat_div)
qed

lemma pad_dvd: "8 dvd unat (pad s)"
  by (simp add: unat_pad)

lemma unat_pad_exact:
  assumes "unat s + 7 < 2 ^ 64"
  shows "unat (pad s) = (unat s + 7) div 8 * 8"
proof -
  have "unat (s + 7) = unat s + unat (7 :: size_t)"
    using assms by (intro unat_add_lem [THEN iffD1]) simp
  then show ?thesis by (simp add: unat_pad)
qed

lemma dvd_unat_add:
  fixes a b :: size_t
  assumes "8 dvd unat a" "8 dvd unat b"
  shows "8 dvd unat (a + b)"
proof -
  have "unat (a + b) = (unat a + unat b) mod 2 ^ 64"
    by (simp add: unat_word_ariths)
  moreover have "(8 :: nat) dvd 2 ^ 64" by simp
  ultimately show ?thesis using assms by (simp add: dvd_mod_iff)
qed

lemma aligned_mod: "8 dvd unat w \<longleftrightarrow> w mod 8 = 0" for w :: size_t
proof -
  have "unat (w mod 8) = unat w mod 8"
    by (simp add: unat_mod)
  then show ?thesis
    by (metis dvd_eq_mod_eq_0 unat_eq_zero)
qed

lemma mod8_add_aligned:
  fixes off n :: size_t
  assumes "8 dvd unat off"
  shows "(off + n) mod 8 = n mod 8"
proof -
  have "unat ((off + n) mod 8) = ((unat off + unat n) mod 2 ^ 64) mod 8"
    by (simp add: unat_mod unat_word_ariths)
  also have "\<dots> = (unat off + unat n) mod 8"
    by (simp add: mod_mod_cancel)
  also have "\<dots> = unat n mod 8"
  proof -
    from assms obtain k where "unat off = 8 * k" by (rule dvdE)
    then show ?thesis by simp
  qed
  also have "\<dots> = unat (n mod 8)"
    by (simp add: unat_mod)
  finally show ?thesis by (simp only: word_unat_eq_iff)
qed

lemma pad_alt: "pad s = s + 7 - (s + 7) mod 8"
proof -
  have "(s + 7) div 8 * 8 + (s + 7) mod 8 = s + 7" by (rule div_mult_mod_eq)
  then have "(s + 7) div 8 * 8 = s + 7 - (s + 7) mod 8"
    by (simp only: eq_diff_eq)
  then show ?thesis by (simp only: pad_eq)
qed

lemma add_pad:
  fixes off n :: size_t
  assumes "8 dvd unat off"
  shows "off + pad n = pad (off + n)"
proof -
  have "(off + (n + 7)) mod 8 = (n + 7) mod 8"
    using assms by (rule mod8_add_aligned)
  then have "(off + n + 7) mod 8 = (n + 7) mod 8"
    by (simp only: add.assoc)
  then have "pad (off + n) = off + n + 7 - (n + 7) mod 8" by (simp only: pad_alt)
  also have "\<dots> = off + (n + 7 - (n + 7) mod 8)"
    by (simp only: diff_conv_add_uminus add.assoc)
  finally show ?thesis by (simp only: pad_alt)
qed

lemma aligned_room: "8 dvd unat S \<Longrightarrow> unat S + 8 \<le> 2 ^ 64" for S :: size_t
proof -
  assume "8 dvd unat S"
  then obtain k where k: "unat S = 8 * k" by (rule dvdE)
  have "unat S < 2 ^ 64" using unsigned_less [of S] by simp
  with k have "8 * k < 8 * 2 ^ 61" by simp
  then have "k < 2 ^ 61" by simp
  then have "8 * (k + 1) \<le> 8 * 2 ^ 61" by (simp only: mult_le_cancel1) simp
  with k show ?thesis by simp
qed

lemma pad_le:
  fixes t S :: size_t
  assumes "8 dvd unat S" "t \<le> S"
  shows "pad t \<le> S"
proof -
  have "unat S + 8 \<le> 2 ^ 64" using assms(1) by (rule aligned_room)
  moreover have le: "unat t \<le> unat S" using assms(2) by (simp add: word_le_nat_alt)
  ultimately have "unat t + 7 < 2 ^ 64" by simp
  then have "unat (pad t) = (unat t + 7) div 8 * 8" by (rule unat_pad_exact)
  moreover have "(unat t + 7) div 8 * 8 \<le> unat S" using assms(1) le by presburger
  ultimately show ?thesis by (simp add: word_le_nat_alt)
qed

subsection \<open>The bounds check\<close>

lemma unat_size_t: "unat (n :: size_t) < 2 ^ 64"
proof -
  have "unat n < 2 ^ LENGTH(64)" by (rule unsigned_less)
  then show ?thesis by simp
qed

lemma guard_exact:
  assumes "offset b + unat n < 2 ^ 64"
  shows "current b - base b + n > size_buf b \<longleftrightarrow> capacity b < offset b + unat n"
proof -
  have "unat (current b - base b + n) = unat (current b - base b) + unat n"
    using assms by (intro unat_add_lem [THEN iffD1]) (simp add: offset_def)
  then show ?thesis by (simp add: word_less_nat_alt offset_def capacity_def)
qed

lemma fits_no_wrap:
  assumes "offset b + unat (n :: size_t) \<le> capacity b"
  shows "offset b + unat n < 2 ^ 64"
proof -
  have "capacity b < 2 ^ 64" unfolding capacity_def by (rule unat_size_t)
  with assms show ?thesis by simp
qed

text \<open>
  An object is at most \<^verbatim>\<open>PTRDIFF_MAX\<close> bytes long; neither a request of that kind nor
  the size of a type makes the sum wrap while the cursor is less than \<open>2 ^ 63\<close> bytes
  after the base.
\<close>

lemma ptrdiff_no_wrap:
  assumes "offset b < 2 ^ 63" "unat (n :: size_t) < 2 ^ 63"
  shows "offset b + unat n < 2 ^ 64"
  using assms by simp

lemma guard_fits:
  assumes "offset b + unat n \<le> capacity b"
  shows "\<not> current b - base b + n > size_buf b"
  using assms guard_exact [OF fits_no_wrap [OF assms]] by simp

lemma guard_past_end:
  assumes "capacity b < offset b + unat n" "offset b + unat n < 2 ^ 64"
  shows "current b - base b + n > size_buf b"
  using assms guard_exact [OF assms(2)] by simp

lemma bytes_inside:
  assumes "offset b + unat (n :: size_t) \<le> capacity b" "j < unat n"
  shows "unat (current b + of_nat j - base b) < capacity b"
proof -
  have j: "j < 2 ^ 64" using assms(2) unat_size_t [of n] by simp
  then have uj: "unat (of_nat j :: size_t) = j" by (simp add: unat_of_nat)
  have "offset b + j < 2 ^ 64" using assms fits_no_wrap [OF assms(1)] by simp
  then have "unat (current b - base b + of_nat j) = unat (current b - base b) + unat (of_nat j :: size_t)"
    by (intro unat_add_lem [THEN iffD1]) (simp add: offset_def uj)
  then have "unat (current b - base b + of_nat j) < capacity b"
    using assms by (simp add: offset_def uj)
  moreover have "current b + of_nat j - base b = current b - base b + of_nat j" by simp
  ultimately show ?thesis by (simp only:)
qed

subsection \<open>memcpy\<close>

lemma of_nat_less:
  assumes "j < unat (n :: size_t)"
  shows "(of_nat j :: size_t) < n"
proof -
  have "j < 2 ^ 64" using assms unat_size_t [of n] by simp
  then have "unat (of_nat j :: size_t) = j" by (simp add: unat_of_nat)
  with assms show ?thesis by (simp add: word_less_nat_alt)
qed

lemma memcpy_copies:
  assumes "\<not> ranges_overlap dst src n"
  shows "\<exists>m'. memcpy m dst src n = Returns m' \<and>
           (\<forall>j<unat n. m' (dst + of_nat j) = m (src + of_nat j)) \<and>
           (\<forall>x. \<not> x - dst < n \<longrightarrow> m' x = m x)"
proof -
  let ?m' = "\<lambda>x. if x - dst < n then m (src + (x - dst)) else m x"
  have "memcpy m dst src n = Returns ?m'" using assms by (simp add: memcpy_def)
  moreover have "\<forall>j<unat n. ?m' (dst + of_nat j) = m (src + of_nat j)"
    by (simp add: of_nat_less)
  moreover have "\<forall>x. \<not> x - dst < n \<longrightarrow> ?m' x = m x" by simp
  ultimately show ?thesis by (intro exI conjI)
qed

subsection \<open>The operations\<close>

text \<open>
  C2, as the code has it. The request itself, not its padded size, is compared with the
  room left: if \<open>offset + n \<le> capacity\<close>, \<open>allocate\<close> returns the cursor, with the \<open>n\<close>
  bytes there inside the buffer, and advances by \<open>pad n\<close>; if \<open>offset + n\<close> exceeds the
  capacity without wrapping, it returns null and the buffer as it was, so that a request
  that fits still succeeds afterwards. The call always returns, and leaves memory alone.
\<close>

theorem allocate_fits:
  "exec_op (Allocate n) (b, m) = Returns (snd (allocate b n), m) \<and>
   (offset b + unat n \<le> capacity b \<longrightarrow>
      allocate b n = (current b, advance b n) \<and>
      (\<forall>j<unat n. unat (current b + of_nat j - base b) < capacity b)) \<and>
   (capacity b < offset b + unat n \<and> offset b + unat n < 2 ^ 64 \<longrightarrow>
      allocate b n = (0, b) \<and>
      (\<forall>k :: size_t. offset b + unat k \<le> capacity b \<longrightarrow>
         allocate (snd (allocate b n)) k = (current b, advance b k)))"
proof (intro conjI impI allI)
  show "exec_op (Allocate n) (b, m) = Returns (snd (allocate b n), m)" by simp
next
  assume fits: "offset b + unat n \<le> capacity b"
  then show "allocate b n = (current b, advance b n)"
    by (simp add: allocate_def guard_fits)
  show "unat (current b + of_nat j - base b) < capacity b" if "j < unat n" for j
    using fits that by (rule bytes_inside)
next
  assume past: "capacity b < offset b + unat n \<and> offset b + unat n < 2 ^ 64"
  then show fail: "allocate b n = (0, b)"
    by (simp add: allocate_def guard_past_end)
  fix k :: size_t
  assume "offset b + unat k \<le> capacity b"
  then show "allocate (snd (allocate b n)) k = (current b, advance b k)"
    by (simp add: fail) (simp add: allocate_def guard_fits)
qed

theorem allocate_fits_witness:
  "offset (GetIPCBuffer 4096) + unat (10 :: size_t) \<le> capacity (GetIPCBuffer 4096) \<and>
   allocate (GetIPCBuffer 4096) 10 =
     (4096, \<lparr>base = 4096, size_buf = 1048576, current = 4112\<rparr>) \<and>
   capacity (new_IPCBuffer 4096 16) < offset (new_IPCBuffer 4096 16) + unat (24 :: size_t) \<and>
   offset (new_IPCBuffer 4096 16) + unat (24 :: size_t) < 2 ^ 64 \<and>
   allocate (new_IPCBuffer 4096 16) 24 = (0, new_IPCBuffer 4096 16) \<and>
   allocate (snd (allocate (new_IPCBuffer 4096 16) 24)) 16 =
     (4096, \<lparr>base = 4096, size_buf = 16, current = 4112\<rparr>)"
proof -
  have fits: "offset (GetIPCBuffer 4096) + unat (10 :: size_t) \<le> capacity (GetIPCBuffer 4096)"
    by (simp add: GetIPCBuffer_def shmemSize_def offset_def capacity_def new_IPCBuffer_def reset_def)
  have past: "capacity (new_IPCBuffer 4096 16) < offset (new_IPCBuffer 4096 16) + unat (24 :: size_t)"
    "offset (new_IPCBuffer 4096 16) + unat (24 :: size_t) < 2 ^ 64"
    by (simp_all add: offset_def capacity_def new_IPCBuffer_def reset_def)
  have small: "offset (new_IPCBuffer 4096 16) + unat (16 :: size_t) \<le> capacity (new_IPCBuffer 4096 16)"
    by (simp add: offset_def capacity_def new_IPCBuffer_def reset_def)
  from allocate_fits [of 10 "GetIPCBuffer 4096" two_mem] fits
  have a: "allocate (GetIPCBuffer 4096) 10 =
             (current (GetIPCBuffer 4096), advance (GetIPCBuffer 4096) 10)"
    by blast
  from allocate_fits [of 24 "new_IPCBuffer 4096 16" two_mem] past small
  have b: "allocate (new_IPCBuffer 4096 16) 24 = (0, new_IPCBuffer 4096 16)"
    and c: "allocate (snd (allocate (new_IPCBuffer 4096 16) 24)) 16 =
              (current (new_IPCBuffer 4096 16), advance (new_IPCBuffer 4096 16) 16)"
    by blast+
  have "advance (GetIPCBuffer 4096) 10 = \<lparr>base = 4096, size_buf = 1048576, current = 4112\<rparr>"
    "advance (new_IPCBuffer 4096 16) 16 = \<lparr>base = 4096, size_buf = 16, current = 4112\<rparr>"
    by (simp_all add: GetIPCBuffer_def shmemSize_def new_IPCBuffer_def reset_def advance_def
        pad_eq)
  with a b c fits past show ?thesis
    by (simp add: GetIPCBuffer_def new_IPCBuffer_def reset_def)
qed

text \<open>
  A buffer of 10 bytes: \<open>allocate 10\<close> succeeds and moves the cursor to 16, although
  cursor plus padded size exceeds the capacity. And a request of \<open>2 ^ 64 - 8\<close> bytes with 8
  of 16 bytes left: the sum wraps to \<open>0\<close>, the cursor is returned and moved back to the base.
\<close>

theorem allocate_fits_counterexample:
  "allocate (new_IPCBuffer 4096 10) 10 =
     (4096, \<lparr>base = 4096, size_buf = 10, current = 4112\<rparr>) \<and>
   capacity (new_IPCBuffer 4096 10) < offset (new_IPCBuffer 4096 10) + unat (pad 10) \<and>
   allocate \<lparr>base = 4096, size_buf = 16, current = 4104\<rparr> 0xFFFFFFFFFFFFFFF8 =
     (4104, \<lparr>base = 4096, size_buf = 16, current = 4096\<rparr>) \<and>
   capacity \<lparr>base = 4096, size_buf = 16, current = 4104\<rparr>
     < offset \<lparr>base = 4096, size_buf = 16, current = 4104\<rparr> + unat (0xFFFFFFFFFFFFFFF8 :: size_t)"
  by (simp add: allocate_def new_IPCBuffer_def reset_def advance_def pad_eq offset_def
      capacity_def)

text \<open>
  \<open>getAndAdvance\<close> where the sum in its bounds check does not wrap. If \<open>sizeof(T)\<close> fits
  in the room left, the cursor is returned and advanced by \<open>pad (sizeof(T))\<close>; if it
  exceeds the room left and offset and \<open>sizeof(T)\<close> add up to less than \<open>2 ^ 64\<close>, null
  is returned and the buffer is unchanged. The call always returns, and leaves memory
  alone.
\<close>

lemma getAndAdvance_no_wrap:
  "exec_op (GetAndAdvance sizeof_T) (b, m) = Returns (snd (getAndAdvance b sizeof_T), m) \<and>
   (offset b + unat sizeof_T \<le> capacity b \<longrightarrow>
      getAndAdvance b sizeof_T = (current b, b\<lparr>current := current b + pad sizeof_T\<rparr>)) \<and>
   (capacity b < offset b + unat sizeof_T \<and> offset b + unat sizeof_T < 2 ^ 64 \<longrightarrow>
      getAndAdvance b sizeof_T = (0, b))"
proof (intro conjI impI)
  show "exec_op (GetAndAdvance sizeof_T) (b, m) = Returns (snd (getAndAdvance b sizeof_T), m)"
    by simp
next
  assume "offset b + unat sizeof_T \<le> capacity b"
  then have "\<not> current b - base b + sizeof_T > size_buf b" by (rule guard_fits)
  then show "getAndAdvance b sizeof_T = (current b, b\<lparr>current := current b + pad sizeof_T\<rparr>)"
    by (simp add: getAndAdvance_def advance_def)
next
  assume "capacity b < offset b + unat sizeof_T \<and> offset b + unat sizeof_T < 2 ^ 64"
  then have "current b - base b + sizeof_T > size_buf b" by (simp add: guard_past_end)
  then show "getAndAdvance b sizeof_T = (0, b)"
    by (simp add: getAndAdvance_def)
qed

lemma getAndAdvance_no_wrap_example:
  "offset (GetIPCBuffer 4096) + unat (12 :: size_t) \<le> capacity (GetIPCBuffer 4096) \<and>
   getAndAdvance (GetIPCBuffer 4096) 12 =
     (4096, \<lparr>base = 4096, size_buf = 1048576, current = 4112\<rparr>) \<and>
   capacity (new_IPCBuffer 4096 16) < offset (new_IPCBuffer 4096 16) + unat (24 :: size_t) \<and>
   offset (new_IPCBuffer 4096 16) + unat (24 :: size_t) < 2 ^ 64 \<and>
   getAndAdvance (new_IPCBuffer 4096 16) 24 = (0, new_IPCBuffer 4096 16)"
proof -
  have fits: "offset (GetIPCBuffer 4096) + unat (12 :: size_t) \<le> capacity (GetIPCBuffer 4096)"
    by (simp add: GetIPCBuffer_def shmemSize_def offset_def capacity_def new_IPCBuffer_def reset_def)
  have past: "capacity (new_IPCBuffer 4096 16) < offset (new_IPCBuffer 4096 16) + unat (24 :: size_t)"
    "offset (new_IPCBuffer 4096 16) + unat (24 :: size_t) < 2 ^ 64"
    by (simp_all add: offset_def capacity_def new_IPCBuffer_def reset_def)
  from getAndAdvance_no_wrap [of 12 "GetIPCBuffer 4096" two_mem] fits
  have a: "getAndAdvance (GetIPCBuffer 4096) 12 =
             (current (GetIPCBuffer 4096),
              (GetIPCBuffer 4096)\<lparr>current := current (GetIPCBuffer 4096) + pad 12\<rparr>)"
    by blast
  from getAndAdvance_no_wrap [of 24 "new_IPCBuffer 4096 16" two_mem] past
  have b: "getAndAdvance (new_IPCBuffer 4096 16) 24 = (0, new_IPCBuffer 4096 16)"
    by blast
  from a b fits past show ?thesis
    by (simp add: GetIPCBuffer_def shmemSize_def new_IPCBuffer_def reset_def pad_eq)
qed


text \<open>
  \<open>write_buf\<close> and \<open>read\<close> where the sum in their bounds check does not wrap. Within
  bounds they copy the \<open>n\<close> bytes at the cursor, touch no other byte and advance the
  cursor by \<open>pad n\<close>. Past the end, offset and \<open>n\<close> adding up to less than \<open>2 ^ 64\<close>,
  \<open>write_buf\<close> returns false with buffer and memory as they were, and \<open>read\<close> aborts.
\<close>

lemma write_read_no_wrap:
  "(offset b + unat n \<le> capacity b \<and> \<not> ranges_overlap (current b) p n \<longrightarrow>
      (\<exists>m'. write_buf b m p n = Returns (True, advance b n, m') \<and>
         (\<forall>j<unat n. m' (current b + of_nat j) = m (p + of_nat j)) \<and>
         (\<forall>x. \<not> x - current b < n \<longrightarrow> m' x = m x))) \<and>
   (offset b + unat n \<le> capacity b \<and> \<not> ranges_overlap p (current b) n \<longrightarrow>
      (\<exists>m'. read b m p n = Returns (advance b n, m') \<and>
         (\<forall>j<unat n. m' (p + of_nat j) = m (current b + of_nat j)) \<and>
         (\<forall>x. \<not> x - p < n \<longrightarrow> m' x = m x))) \<and>
   (capacity b < offset b + unat n \<and> offset b + unat n < 2 ^ 64 \<longrightarrow>
      write_buf b m p n = Returns (False, b, m) \<and> read b m p n = Aborts)"
proof (intro conjI impI)
  assume a: "offset b + unat n \<le> capacity b \<and> \<not> ranges_overlap (current b) p n"
  then obtain m' where "memcpy m (current b) p n = Returns m'"
    "\<forall>j<unat n. m' (current b + of_nat j) = m (p + of_nat j)"
    "\<forall>x. \<not> x - current b < n \<longrightarrow> m' x = m x"
    using memcpy_copies [of "current b" p n m] by blast
  moreover from a have "\<not> current b - base b + n > size_buf b" by (simp add: guard_fits)
  ultimately show "\<exists>m'. write_buf b m p n = Returns (True, advance b n, m') \<and>
         (\<forall>j<unat n. m' (current b + of_nat j) = m (p + of_nat j)) \<and>
         (\<forall>x. \<not> x - current b < n \<longrightarrow> m' x = m x)"
    by (intro exI [of _ m']) (simp add: write_buf_def)
next
  assume a: "offset b + unat n \<le> capacity b \<and> \<not> ranges_overlap p (current b) n"
  then obtain m' where "memcpy m p (current b) n = Returns m'"
    "\<forall>j<unat n. m' (p + of_nat j) = m (current b + of_nat j)"
    "\<forall>x. \<not> x - p < n \<longrightarrow> m' x = m x"
    using memcpy_copies [of p "current b" n m] by blast
  moreover from a have "\<not> current b - base b + n > size_buf b" by (simp add: guard_fits)
  ultimately show "\<exists>m'. read b m p n = Returns (advance b n, m') \<and>
         (\<forall>j<unat n. m' (p + of_nat j) = m (current b + of_nat j)) \<and>
         (\<forall>x. \<not> x - p < n \<longrightarrow> m' x = m x)"
    by (intro exI [of _ m']) (simp add: read_def)
next
  assume a: "capacity b < offset b + unat n \<and> offset b + unat n < 2 ^ 64"
  then have "current b - base b + n > size_buf b" by (simp add: guard_past_end)
  then show "write_buf b m p n = Returns (False, b, m)" "read b m p n = Aborts"
    by (simp_all add: write_buf_def read_def)
qed

lemma write_read_no_wrap_example:
  "offset (GetIPCBuffer 4096) + unat (10 :: size_t) \<le> capacity (GetIPCBuffer 4096) \<and>
   \<not> ranges_overlap (current (GetIPCBuffer 4096)) 64 10 \<and>
   \<not> ranges_overlap 64 (current (GetIPCBuffer 4096)) 10 \<and>
   (\<exists>m'. write_buf (GetIPCBuffer 4096) two_mem 64 10 =
            Returns (True, \<lparr>base = 4096, size_buf = 1048576, current = 4112\<rparr>, m') \<and>
          m' 4097 = two_mem 65 \<and> m' 4120 = two_mem 4120) \<and>
   (\<exists>m'. read (GetIPCBuffer 4096) two_mem 64 10 =
            Returns (\<lparr>base = 4096, size_buf = 1048576, current = 4112\<rparr>, m') \<and>
          m' 65 = two_mem 4097 \<and> m' 4120 = two_mem 4120) \<and>
   capacity (new_IPCBuffer 4096 16) < offset (new_IPCBuffer 4096 16) + unat (24 :: size_t) \<and>
   offset (new_IPCBuffer 4096 16) + unat (24 :: size_t) < 2 ^ 64 \<and>
   write_buf (new_IPCBuffer 4096 16) two_mem 64 24 =
     Returns (False, new_IPCBuffer 4096 16, two_mem) \<and>
   read (new_IPCBuffer 4096 16) two_mem 64 24 = Aborts"
proof -
  let ?b = "GetIPCBuffer 4096"
  have cur: "current ?b = 4096"
    by (simp add: GetIPCBuffer_def new_IPCBuffer_def reset_def)
  have adv: "advance ?b 10 = \<lparr>base = 4096, size_buf = 1048576, current = 4112\<rparr>"
    by (simp add: GetIPCBuffer_def shmemSize_def new_IPCBuffer_def reset_def advance_def pad_eq)
  have fits: "offset ?b + unat (10 :: size_t) \<le> capacity ?b"
    by (simp add: GetIPCBuffer_def shmemSize_def offset_def capacity_def new_IPCBuffer_def reset_def)
  have apart: "\<not> ranges_overlap (current ?b) 64 10" "\<not> ranges_overlap 64 (current ?b) 10"
    by (simp_all add: cur ranges_overlap_def)
  have past: "capacity (new_IPCBuffer 4096 16) < offset (new_IPCBuffer 4096 16) + unat (24 :: size_t)"
    "offset (new_IPCBuffer 4096 16) + unat (24 :: size_t) < 2 ^ 64"
    by (simp_all add: offset_def capacity_def new_IPCBuffer_def reset_def)
  note wr = write_read_no_wrap [of ?b 10 64 two_mem]
  from wr fits apart(1) obtain m1 where w: "write_buf ?b two_mem 64 10 = Returns (True, advance ?b 10, m1)"
    "\<forall>j<unat (10 :: size_t). m1 (current ?b + of_nat j) = two_mem (64 + of_nat j)"
    "\<forall>x. \<not> x - current ?b < 10 \<longrightarrow> m1 x = two_mem x"
    by blast
  from wr fits apart(2) obtain m2 where r: "read ?b two_mem 64 10 = Returns (advance ?b 10, m2)"
    "\<forall>j<unat (10 :: size_t). m2 (64 + of_nat j) = two_mem (current ?b + of_nat j)"
    "\<forall>x. \<not> x - 64 < 10 \<longrightarrow> m2 x = two_mem x"
    by blast
  from w(2) [rule_format, of 1] have w1: "m1 4097 = two_mem 65" by (simp add: cur)
  from w(3) [rule_format, of 4120] have w2: "m1 4120 = two_mem 4120" by (simp add: cur)
  from r(2) [rule_format, of 1] have r1: "m2 65 = two_mem 4097" by (simp add: cur)
  from r(3) [rule_format, of 4120] have r2: "m2 4120 = two_mem 4120" by simp
  from write_read_no_wrap [of "new_IPCBuffer 4096 16" 24 64 two_mem] past
  have f: "write_buf (new_IPCBuffer 4096 16) two_mem 64 24 =
             Returns (False, new_IPCBuffer 4096 16, two_mem)"
    "read (new_IPCBuffer 4096 16) two_mem 64 24 = Aborts"
    by blast+
  have "\<exists>m'. write_buf ?b two_mem 64 10 =
            Returns (True, \<lparr>base = 4096, size_buf = 1048576, current = 4112\<rparr>, m') \<and>
          m' 4097 = two_mem 65 \<and> m' 4120 = two_mem 4120"
    using w(1) w1 w2 unfolding adv by (intro exI conjI)
  moreover have "\<exists>m'. read ?b two_mem 64 10 =
            Returns (\<lparr>base = 4096, size_buf = 1048576, current = 4112\<rparr>, m') \<and>
          m' 65 = two_mem 4097 \<and> m' 4120 = two_mem 4120"
    using r(1) r1 r2 unfolding adv by (intro exI conjI)
  ultimately show ?thesis using fits apart past f by (intro conjI)
qed

text \<open>
  C5. \<open>write_buf\<close> does not return false, nor \<open>read\<close> abort, whenever \<open>n\<close> exceeds the
  room left. On a 16-byte buffer at \<open>0x1000\<close> with the cursor at offset 8 (a fresh buffer
  after \<open>advance(8)\<close>) and \<open>n = 2 ^ 64 - 8\<close>, the sum in the bounds check wraps to \<open>0\<close>,
  which is not greater than 16: both calls go on to \<open>memcpy\<close> with that length and then
  move the cursor by \<open>pad n\<close>, back to the base.
\<close>

theorem write_read_wrap:
  "advance (new_IPCBuffer 4096 16) 8 = \<lparr>base = 4096, size_buf = 16, current = 4104\<rparr> \<and>
   capacity \<lparr>base = 4096, size_buf = 16, current = 4104\<rparr>
     < offset \<lparr>base = 4096, size_buf = 16, current = 4104\<rparr> + unat (0xFFFFFFFFFFFFFFF8 :: size_t) \<and>
   current \<lparr>base = 4096, size_buf = 16, current = 4104\<rparr>
     - base \<lparr>base = 4096, size_buf = 16, current = 4104\<rparr> + (0xFFFFFFFFFFFFFFF8 :: size_t) = 0 \<and>
   write_buf \<lparr>base = 4096, size_buf = 16, current = 4104\<rparr> two_mem 64 0xFFFFFFFFFFFFFFF8 =
     map_outcome (\<lambda>m'. (True, \<lparr>base = 4096, size_buf = 16, current = 4096\<rparr>, m'))
       (memcpy two_mem 4104 64 0xFFFFFFFFFFFFFFF8) \<and>
   read \<lparr>base = 4096, size_buf = 16, current = 4104\<rparr> two_mem 64 0xFFFFFFFFFFFFFFF8 =
     map_outcome (\<lambda>m'. (\<lparr>base = 4096, size_buf = 16, current = 4096\<rparr>, m'))
       (memcpy two_mem 64 4104 0xFFFFFFFFFFFFFFF8) \<and>
   write_buf \<lparr>base = 4096, size_buf = 16, current = 4104\<rparr> two_mem 64 0xFFFFFFFFFFFFFFF8 \<noteq>
     Returns (False, \<lparr>base = 4096, size_buf = 16, current = 4104\<rparr>, two_mem) \<and>
   read \<lparr>base = 4096, size_buf = 16, current = 4104\<rparr> two_mem 64 0xFFFFFFFFFFFFFFF8 \<noteq> Aborts"
proof -
  have adv: "advance \<lparr>base = 4096, size_buf = 16, current = 4104\<rparr> 0xFFFFFFFFFFFFFFF8 =
      \<lparr>base = 4096, size_buf = 16, current = 4096\<rparr>"
    by (simp add: advance_def pad_eq)
  have w: "write_buf \<lparr>base = 4096, size_buf = 16, current = 4104\<rparr> two_mem 64 0xFFFFFFFFFFFFFFF8 =
     map_outcome (\<lambda>m'. (True, \<lparr>base = 4096, size_buf = 16, current = 4096\<rparr>, m'))
       (memcpy two_mem 4104 64 0xFFFFFFFFFFFFFFF8)"
    by (simp add: write_buf_def adv)
  have r: "read \<lparr>base = 4096, size_buf = 16, current = 4104\<rparr> two_mem 64 0xFFFFFFFFFFFFFFF8 =
     map_outcome (\<lambda>m'. (\<lparr>base = 4096, size_buf = 16, current = 4096\<rparr>, m'))
       (memcpy two_mem 64 4104 0xFFFFFFFFFFFFFFF8)"
    by (simp add: read_def adv)
  have n: "write_buf \<lparr>base = 4096, size_buf = 16, current = 4104\<rparr> two_mem 64 0xFFFFFFFFFFFFFFF8 \<noteq>
     Returns (False, \<lparr>base = 4096, size_buf = 16, current = 4104\<rparr>, two_mem)"
    "read \<lparr>base = 4096, size_buf = 16, current = 4104\<rparr> two_mem 64 0xFFFFFFFFFFFFFFF8 \<noteq> Aborts"
    by (simp_all add: write_buf_def read_def memcpy_def ranges_overlap_def)
  have s: "advance (new_IPCBuffer 4096 16) 8 = \<lparr>base = 4096, size_buf = 16, current = 4104\<rparr>"
    "capacity \<lparr>base = 4096, size_buf = 16, current = 4104\<rparr>
       < offset \<lparr>base = 4096, size_buf = 16, current = 4104\<rparr> + unat (0xFFFFFFFFFFFFFFF8 :: size_t)"
    "current \<lparr>base = 4096, size_buf = 16, current = 4104\<rparr>
       - base \<lparr>base = 4096, size_buf = 16, current = 4104\<rparr> + (0xFFFFFFFFFFFFFFF8 :: size_t) = 0"
    by (simp_all add: new_IPCBuffer_def reset_def advance_def pad_eq capacity_def offset_def)
  from s w r n show ?thesis by (intro conjI)
qed

text \<open>
  C8. \<open>reset\<close> puts the cursor at the start and changes neither base nor size nor any
  byte of memory: the buffer is again the one the constructor made, and a request up to
  the capacity is served from the start.
\<close>

theorem reset_rewinds:
  "exec_op Reset (b, m) = Returns (reset b, m) \<and>
   current (reset b) = base b \<and> base (reset b) = base b \<and> size_buf (reset b) = size_buf b \<and>
   reset b = new_IPCBuffer (base b) (size_buf b) \<and> offset (reset b) = 0 \<and>
   (unat n \<le> capacity b \<longrightarrow> allocate (reset b) n = (base b, advance (reset b) n))"
proof (intro conjI impI)
  show "exec_op Reset (b, m) = Returns (reset b, m)" by simp
  show "current (reset b) = base b" "base (reset b) = base b" "size_buf (reset b) = size_buf b"
    by (simp_all add: reset_def)
  show "reset b = new_IPCBuffer (base b) (size_buf b)"
    by (simp add: reset_def new_IPCBuffer_def)
  show zero: "offset (reset b) = 0" by (simp add: reset_def offset_def)
  assume "unat n \<le> capacity b"
  then have "offset (reset b) + unat n \<le> capacity (reset b)"
    by (simp add: zero) (simp add: capacity_def reset_def)
  then have "\<not> current (reset b) - base (reset b) + n > size_buf (reset b)"
    by (rule guard_fits)
  then show "allocate (reset b) n = (base b, advance (reset b) n)"
    by (simp add: allocate_def) (simp add: reset_def)
qed

theorem reset_rewinds_witness:
  "unat (16 :: size_t) \<le> capacity \<lparr>base = 4096, size_buf = 16, current = 4112\<rparr> \<and>
   reset \<lparr>base = 4096, size_buf = 16, current = 4112\<rparr> =
     \<lparr>base = 4096, size_buf = 16, current = 4096\<rparr> \<and>
   allocate (reset \<lparr>base = 4096, size_buf = 16, current = 4112\<rparr>) 16 =
     (4096, \<lparr>base = 4096, size_buf = 16, current = 4112\<rparr>)"
proof -
  let ?b = "\<lparr>base = 4096, size_buf = 16, current = 4112\<rparr>"
  have fits: "unat (16 :: size_t) \<le> capacity ?b" by (simp add: capacity_def)
  from reset_rewinds [of ?b two_mem 16] fits
  have "allocate (reset ?b) 16 = (base ?b, advance (reset ?b) 16)" by blast
  moreover have "reset ?b = \<lparr>base = 4096, size_buf = 16, current = 4096\<rparr>"
    by (simp add: reset_def)
  moreover have "advance \<lparr>base = 4096, size_buf = 16, current = 4096\<rparr> 16 = ?b"
    by (simp add: advance_def pad_eq)
  ultimately show ?thesis using fits by simp
qed

subsection \<open>The cursor along a sequence of calls\<close>

lemma offset_new: "offset (new_IPCBuffer B S) = 0"
  by (simp add: new_IPCBuffer_def reset_def offset_def)

lemma offset_reset: "offset (reset b) = 0"
  by (simp add: reset_def offset_def)

lemma offset_advance: "offset (advance b s) = unat (current b - base b + pad s)"
proof -
  have "current b + pad s - base b = current b - base b + pad s" by simp
  moreover have "offset (advance b s) = unat (current b + pad s - base b)"
    by (simp add: advance_def offset_def)
  ultimately show ?thesis by (simp only:)
qed

lemma advance_aligned:
  assumes "8 dvd offset b"
  shows "8 dvd offset (advance b s)"
  unfolding offset_advance
  using assms pad_dvd [of s] unfolding offset_def by (rule dvd_unat_add)

lemma advance_within:
  assumes "8 dvd capacity b" "8 dvd offset b" "\<not> current b - base b + s > size_buf b"
  shows "offset (advance b s) \<le> capacity b"
proof -
  have "current b - base b + pad s = pad (current b - base b + s)"
    using assms(2) unfolding offset_def by (rule add_pad)
  moreover have "pad (current b - base b + s) \<le> size_buf b"
    using assms(1,3) unfolding capacity_def by (intro pad_le) (simp_all add: not_less)
  ultimately show ?thesis
    by (simp add: offset_advance capacity_def word_le_nat_alt)
qed

lemma frame_advance [simp]: "base (advance b s) = base b" "size_buf (advance b s) = size_buf b"
  by (simp_all add: advance_def)

lemma frame_reset [simp]: "base (reset b) = base b" "size_buf (reset b) = size_buf b"
  by (simp_all add: reset_def)

lemma exec_op_cases:
  assumes "exec_op c (b, m) = Returns (b', m')"
  shows "b' = b \<or> b' = reset b \<or> (\<exists>s. b' = advance b s \<and>
           (is_Advance c \<or> \<not> current b - base b + s > size_buf b))"
proof (cases c)
  case Reset
  with assms show ?thesis by auto
next
  case (Advance s)
  with assms show ?thesis by auto
next
  case (Write p s)
  with assms show ?thesis
    by (cases "memcpy m (current b) p s") (auto simp add: write_buf_def split: if_splits)
next
  case (Read p s)
  with assms show ?thesis
    by (cases "memcpy m p (current b) s") (auto simp add: read_def split: if_splits)
next
  case (GetAndAdvance s)
  with assms show ?thesis by (auto simp add: getAndAdvance_def split: if_splits)
next
  case (Allocate s)
  with assms show ?thesis by (auto simp add: allocate_def split: if_splits)
qed

lemma exec_op_frame:
  assumes "exec_op c (b, m) = Returns (b', m')"
  shows "base b' = base b \<and> size_buf b' = size_buf b"
  using exec_op_cases [OF assms] by auto

lemma exec_op_aligned:
  assumes "exec_op c (b, m) = Returns (b', m')" "8 dvd offset b"
  shows "8 dvd offset b'"
  using exec_op_cases [OF assms(1)] assms(2)
  by (auto simp add: offset_reset advance_aligned)

lemma exec_op_within:
  assumes "exec_op c (b, m) = Returns (b', m')" "\<not> is_Advance c"
    and "8 dvd capacity b" "8 dvd offset b" "offset b \<le> capacity b"
  shows "offset b' \<le> capacity b'"
proof -
  have cap: "capacity b' = capacity b"
    using exec_op_frame [OF assms(1)] by (simp add: capacity_def)
  from exec_op_cases [OF assms(1)] assms(2)
  consider "b' = b" | "b' = reset b"
    | s where "b' = advance b s" "\<not> current b - base b + s > size_buf b"
    by blast
  then show ?thesis
  proof cases
    case 1
    with assms(5) show ?thesis by simp
  next
    case 2
    then show ?thesis by (simp add: offset_reset)
  next
    case 3
    from assms(3,4) 3(2) have "offset (advance b s) \<le> capacity b" by (rule advance_within)
    with 3(1) cap show ?thesis by simp
  qed
qed

text \<open>
  A sequence that returns has returned after each of its calls: what holds at the end of
  every sequence holds throughout.
\<close>

lemma run_append:
  "run (cs @ ds) st =
     (case run cs st of Returns st' \<Rightarrow> run ds st' | Aborts \<Rightarrow> Aborts | Undefined \<Rightarrow> Undefined)"
proof (induction cs arbitrary: st)
  case Nil
  then show ?case by simp
next
  case (Cons c cs)
  then show ?case by (cases "exec_op c st") simp_all
qed

lemma run_prefix:
  assumes "run (cs @ ds) st = Returns st''"
  shows "\<exists>st'. run cs st = Returns st' \<and> run ds st' = Returns st''"
  using assms by (cases "run cs st") (simp_all add: run_append)

lemma run_aligned:
  assumes "run cs (b, m) = Returns (b', m')" "8 dvd offset b"
  shows "8 dvd offset b'"
  using assms
proof (induction cs arbitrary: b m)
  case Nil
  then show ?case by simp
next
  case (Cons c cs)
  from Cons.prems(1) obtain b1 m1 where step: "exec_op c (b, m) = Returns (b1, m1)"
    and rest: "run cs (b1, m1) = Returns (b', m')"
    by (cases "exec_op c (b, m)") auto
  from step Cons.prems(2) have "8 dvd offset b1" by (rule exec_op_aligned)
  with rest show ?case by (rule Cons.IH)
qed

lemma run_within:
  assumes "run cs (b, m) = Returns (b', m')" "\<forall>c\<in>set cs. \<not> is_Advance c"
    and "8 dvd capacity b" "8 dvd offset b" "offset b \<le> capacity b"
  shows "offset b' \<le> capacity b'"
  using assms
proof (induction cs arbitrary: b m)
  case Nil
  then show ?case by simp
next
  case (Cons c cs)
  from Cons.prems(1) obtain b1 m1 where step: "exec_op c (b, m) = Returns (b1, m1)"
    and rest: "run cs (b1, m1) = Returns (b', m')"
    by (cases "exec_op c (b, m)") auto
  from Cons.prems(2) have c: "\<not> is_Advance c" and cs: "\<forall>c\<in>set cs. \<not> is_Advance c" by simp_all
  have "capacity b1 = capacity b"
    using exec_op_frame [OF step] by (simp add: capacity_def)
  with Cons.prems(3) have "8 dvd capacity b1" by simp
  moreover from step Cons.prems(4) have "8 dvd offset b1" by (rule exec_op_aligned)
  moreover from step c Cons.prems(3-5) have "offset b1 \<le> capacity b1" by (rule exec_op_within)
  ultimately show ?case using rest cs by (intro Cons.IH)
qed

text \<open>
  C3, as the code has it. After any sequence of calls on a fresh buffer the cursor is a
  multiple of 8 bytes from the base. It is within the capacity if the capacity is a
  multiple of 8 and \<open>advance\<close> is not called directly.
\<close>

theorem cursor_invariant:
  assumes "run cs (new_IPCBuffer B S, m) = Returns (b, m')"
  shows "8 dvd offset b \<and>
         (8 dvd unat S \<and> (\<forall>c\<in>set cs. \<not> is_Advance c) \<longrightarrow> offset b \<le> capacity b)"
proof (intro conjI impI)
  show "8 dvd offset b"
    using assms by (rule run_aligned) (simp add: offset_new)
next
  assume a: "8 dvd unat S \<and> (\<forall>c\<in>set cs. \<not> is_Advance c)"
  then have "8 dvd capacity (new_IPCBuffer B S)"
    by (simp add: capacity_def new_IPCBuffer_def reset_def)
  with assms a show "offset b \<le> capacity b"
    by (intro run_within [OF assms]) (simp_all add: offset_new)
qed





theorem cursor_invariant_witness:
  "8 dvd unat shmemSize \<and>
   filter is_Advance [Allocate 10, Write 64 8, Reset, GetAndAdvance 4, Read 128 8] = [] \<and>
   (\<exists>m'. run [Allocate 10, Write 64 8, Reset, GetAndAdvance 4, Read 128 8]
           (GetIPCBuffer 4096, two_mem) =
         Returns (\<lparr>base = 4096, size_buf = 1048576, current = 4112\<rparr>, m')) \<and>
   8 dvd offset \<lparr>base = 4096, size_buf = 1048576, current = 4112\<rparr> \<and>
   offset \<lparr>base = 4096, size_buf = 1048576, current = 4112\<rparr>
     \<le> capacity \<lparr>base = 4096, size_buf = 1048576, current = 4112\<rparr>"
proof -
  let ?cs = "[Allocate 10, Write 64 8, Reset, GetAndAdvance 4, Read 128 8]"
  let ?b = "\<lparr>base = 4096, size_buf = 1048576, current = 4112\<rparr>"
  have "\<exists>m'. run ?cs (new_IPCBuffer 4096 shmemSize, two_mem) = Returns (?b, m')"
    by (simp add: shmemSize_def new_IPCBuffer_def reset_def allocate_def getAndAdvance_def
        write_buf_def read_def memcpy_def ranges_overlap_def advance_def pad_eq)
  then obtain m' where run: "run ?cs (new_IPCBuffer 4096 shmemSize, two_mem) = Returns (?b, m')"
    by blast
  have hyp: "8 dvd unat shmemSize" "\<forall>c\<in>set ?cs. \<not> is_Advance c"
    by (simp_all add: shmemSize_def)
  from cursor_invariant [OF run] hyp
  have inv: "8 dvd offset ?b" "offset ?b \<le> capacity ?b" by blast+
  from run have "\<exists>m'. run ?cs (GetIPCBuffer 4096, two_mem) = Returns (?b, m')"
    by (auto simp add: GetIPCBuffer_def)
  with inv hyp(1) show ?thesis by simp
qed

text \<open>
  The cursor beyond the capacity: by \<open>advance\<close>, which checks nothing, and by \<open>allocate\<close>
  on a buffer whose capacity is not a multiple of 8.
\<close>

theorem cursor_invariant_counterexample:
  "run [Advance 24] (new_IPCBuffer 4096 16, two_mem) =
     Returns (\<lparr>base = 4096, size_buf = 16, current = 4120\<rparr>, two_mem) \<and>
   capacity \<lparr>base = 4096, size_buf = 16, current = 4120\<rparr>
     < offset \<lparr>base = 4096, size_buf = 16, current = 4120\<rparr> \<and>
   run [Allocate 10] (new_IPCBuffer 4096 10, two_mem) =
     Returns (\<lparr>base = 4096, size_buf = 10, current = 4112\<rparr>, two_mem) \<and>
   capacity \<lparr>base = 4096, size_buf = 10, current = 4112\<rparr>
     < offset \<lparr>base = 4096, size_buf = 10, current = 4112\<rparr>"
  by (simp add: new_IPCBuffer_def reset_def allocate_def advance_def pad_eq offset_def
      capacity_def)

section \<open>Waiting for the response\<close>

lemma wait_skips_timeouts:
  "WaitForMainResponseOrFail (replicate k WAIT_TIMEOUT @ rs) = WaitForMainResponseOrFail rs"
  by (induction k) simp_all

text \<open>
  C6, as the code has it. The wait ends with the first call that does not time out,
  however many timed out before, and does not end before. It returns false when that call
  reports the process handle, true when it reports the response semaphore, and false
  again when the call failed.
\<close>

theorem wait_ends_at_first_signal:
  "WaitForMainResponseOrFail (replicate k WAIT_TIMEOUT @ (WAIT_OBJECT_0 + 1) # later) = Some False \<and>
   WaitForMainResponseOrFail (replicate k WAIT_TIMEOUT @ (WAIT_OBJECT_0 + 0) # later) = Some True \<and>
   WaitForMainResponseOrFail (replicate k WAIT_TIMEOUT @ WAIT_FAILED # later) = Some False \<and>
   WaitForMainResponseOrFail (replicate k WAIT_TIMEOUT) = None"
proof -
  have "WaitForMainResponseOrFail (replicate k WAIT_TIMEOUT @ []) = None"
    by (simp only: wait_skips_timeouts WaitForMainResponseOrFail.simps)
  then have none: "WaitForMainResponseOrFail (replicate k WAIT_TIMEOUT) = None"
    by simp
  have "WaitForMainResponseOrFail ((WAIT_OBJECT_0 + 1) # later) = Some False"
    "WaitForMainResponseOrFail ((WAIT_OBJECT_0 + 0) # later) = Some True"
    "WaitForMainResponseOrFail (WAIT_FAILED # later) = Some False"
    by (simp_all add: WAIT_OBJECT_0_def WAIT_TIMEOUT_def WAIT_FAILED_def)
  with none show ?thesis by (simp only: wait_skips_timeouts simp_thms)
qed

text \<open>
  The function returns a \<open>bool\<close>: a terminated main process and a failed wait give the
  same value, and no \<open>WaitResult\<close> is produced.
\<close>

theorem wait_outcomes_counterexample:
  "WaitForMainResponseOrFail [WAIT_OBJECT_0 + 1] = Some False \<and>
   WaitForMainResponseOrFail [WAIT_FAILED] = Some False"
  by (simp add: WAIT_OBJECT_0_def WAIT_TIMEOUT_def WAIT_FAILED_def)

section \<open>Aligned slots\<close>

text \<open>
  Two slots at addresses that are multiples of 8 are the same slot or share no byte: a
  ledger of such slots is one the statements above apply to. The header itself checks the
  alignment of no offset it records.
\<close>

lemma aligned_diff:
  fixes a b :: addr
  assumes "8 dvd unat a" "8 dvd unat b"
  shows "8 dvd unat (b - a)"
proof -
  have "(a + (b - a)) mod 8 = (b - a) mod 8"
    using assms(1) by (rule mod8_add_aligned)
  moreover have "a + (b - a) = b" by simp
  ultimately have "(b - a) mod 8 = b mod 8" by (simp only:)
  with assms(2) show ?thesis by (simp add: aligned_mod)
qed

lemma aligned_slots_apart:
  fixes a b :: addr
  assumes "8 dvd unat a" "8 dvd unat b" "a \<noteq> b"
  shows "slots_disjoint a b"
proof -
  have *: "8 \<le> d" if "8 dvd unat d" "d \<noteq> 0" for d :: addr
  proof -
    from that(1) obtain k where k: "unat d = 8 * k" by (rule dvdE)
    from that(2) have "unat d \<noteq> 0" by (simp add: unat_eq_zero)
    with k have "8 \<le> unat d" by simp
    then show ?thesis by (simp add: word_le_nat_alt)
  qed
  have "8 \<le> b - a" using assms by (intro * aligned_diff) simp_all
  moreover have "8 \<le> a - b" using assms by (intro * aligned_diff) simp_all
  ultimately show ?thesis by (simp add: slots_disjoint_def)
qed

end
